theory Spec2Isabelle
  imports Main "HOL-Library.AList"
begin

section \<open>Values, exceptions and requests\<close>

text \<open>
  The values that travel through \<^verbatim>\<open>klippy/webhooks.py\<close> are the ones \<^verbatim>\<open>json.loads\<close>
  produces and \<^verbatim>\<open>json.dumps\<close> accepts. Python's \<^verbatim>\<open>None\<close> is \<open>JNull\<close>; a \<^verbatim>\<open>dict\<close> is
  an association list (read with \<open>map_of\<close>; a decoded dict has distinct keys); strings are
  the byte strings that \<^verbatim>\<open>byteify\<close> leaves behind. Floating point numbers are not
  modelled.
\<close>

datatype json =
    JNull
  | JBool bool
  | JInt int
  | JStr string
  | JList "json list"
  | JObj "(string \<times> json) list"

text \<open>
  \<^verbatim>\<open>WebRequestError\<close> derives from \<^verbatim>\<open>homing.CommandError\<close>; every other exception a
  handler can raise is an \<open>OtherException\<close>. Each carries its \<^verbatim>\<open>message\<close>.
\<close>

datatype exn =
    WebRequestError string
  | CommandError string
  | OtherException string

fun message :: "exn \<Rightarrow> string" where
  "message (WebRequestError m) = m"
| "message (CommandError m) = m"
| "message (OtherException m) = m"

text \<open>What \<^verbatim>\<open>except homing.CommandError\<close> catches.\<close>

fun is_command_error :: "exn \<Rightarrow> bool" where
  "is_command_error (WebRequestError m) = True"
| "is_command_error (CommandError m) = True"
| "is_command_error (OtherException m) = False"

text \<open>\<^verbatim>\<open>WebRequestError.to_dict\<close>, applied to \<^verbatim>\<open>WebRequestError(msg)\<close>.\<close>

definition to_dict :: "string \<Rightarrow> json" where
  "to_dict msg = JObj [(''error'', JStr ''WebRequestError''), (''message'', JStr msg)]"

text \<open>
  \<^verbatim>\<open>class WebRequest\<close>. \<open>client_conn\<close> is the \<^verbatim>\<open>uid\<close> of the owning connection,
  \<open>id_req\<close> is the field \<^verbatim>\<open>id\<close>, \<open>response\<close> starts as \<^verbatim>\<open>None\<close>. The three request
  fields hold whatever JSON value the client put there.
\<close>

record web_request =
  client_conn :: nat
  id_req :: json
  path :: json
  args :: json
  response :: json

definition set_error :: "exn \<Rightarrow> web_request \<Rightarrow> web_request" where
  "set_error e wr = wr\<lparr>response := to_dict (message e)\<rparr>"

text \<open>
  \<^verbatim>\<open>
  def send(self, data):
      if self.response is not None:
          raise WebRequestError("Multiple calls to send not allowed")
      self.response = data
  \<close>
\<close>

definition send :: "json \<Rightarrow> web_request \<Rightarrow> exn + web_request" where
  "send data wr =
     (if response wr \<noteq> JNull
      then Inl (WebRequestError ''Multiple calls to send not allowed'')
      else Inr (wr\<lparr>response := data\<rparr>))"

text \<open>
  \<^verbatim>\<open>
  def finish(self):
      if self.response is None:
          self.response = "ok"
      return {"request_id": self.id, "response": self.response}
  \<close>
  The first component is the request as \<^verbatim>\<open>finish\<close> leaves it, the second the returned
  dict.
\<close>

definition finish :: "web_request \<Rightarrow> web_request \<times> json" where
  "finish wr =
     (let wr' = (if response wr = JNull then wr\<lparr>response := JStr ''ok''\<rparr> else wr)
      in (wr', JObj [(''request_id'', id_req wr'), (''response'', response wr')]))"


section \<open>The Python runtime the module calls\<close>

text \<open>
  \<^verbatim>\<open>json.dumps\<close>, \<^verbatim>\<open>json.loads\<close> and \<^verbatim>\<open>str\<close> belong to Python, not to this module, so
  the operations below take them as a parameter. \<open>json_loads_byteified\<close> stands for the
  module's function of that name, \<^verbatim>\<open>json.loads\<close> followed by \<^verbatim>\<open>byteify\<close>, which only
  replaces every \<^verbatim>\<open>unicode\<close> object by its UTF-8 byte string, the form strings have in
  \<open>json\<close>; \<open>None\<close> is a text that \<^verbatim>\<open>json.loads\<close> rejects with an exception. \<open>py_str\<close> is
  the \<^verbatim>\<open>%s\<close> formatting of a value.
\<close>

record py_runtime =
  json_dumps :: "json \<Rightarrow> string"
  json_loads_byteified :: "string \<Rightarrow> json option"
  py_str :: "json \<Rightarrow> string"

text \<open>\<^verbatim>\<open>data.split(sep)\<close> for a separator of one character.\<close>

fun str_split :: "char \<Rightarrow> string \<Rightarrow> string list" where
  "str_split sep [] = [[]]"
| "str_split sep (c # cs) =
     (if c = sep then [] # str_split sep cs
      else (case str_split sep cs of
              [] \<Rightarrow> [[c]]
            | r # rs \<Rightarrow> (c # r) # rs))"

text \<open>The frame terminator, \<^verbatim>\<open>"\x03"\<close>.\<close>

definition ETX :: char where
  "ETX = CHR 0x03"

section \<open>Client connections\<close>

datatype errno = EBADF | EPIPE | EAGAIN | OtherErrno nat

text \<open>What \<^verbatim>\<open>sock.recv(4096)\<close> and \<^verbatim>\<open>sock.send(buf)\<close> can do.\<close>

datatype recv_result = Recv string | RecvError errno

datatype send_result = Sent nat | SendError errno

text \<open>What \<^verbatim>\<open>reactor.register_callback\<close> is given by a connection.\<close>

datatype callback = ProcessRequest web_request | DoSend

text \<open>
  \<^verbatim>\<open>class ClientConnection\<close>. \<open>fd_handle\<close> is \<open>None\<close> once the connection is closed;
  \<open>callbacks\<close> is the reactor's queue of the callbacks this connection registered, in
  the order of registration; \<open>sock_out\<close> holds the bytes the socket has accepted.
\<close>

record client_connection =
  uid :: nat
  fd_handle :: "nat option"
  partial_data :: string
  send_buffer :: string
  is_sending_data :: bool
  callbacks :: "callback list"
  sock_out :: string

definition close :: "client_connection \<Rightarrow> client_connection" where
  "close c = (if fd_handle c \<noteq> None then c\<lparr>fd_handle := None\<rparr> else c)"

definition is_closed :: "client_connection \<Rightarrow> bool" where
  "is_closed c = (fd_handle c = None)"

text \<open>
  \<^verbatim>\<open>ClientConnection.__init__\<close>, for the connection \<open>u\<close> whose socket the reactor
  registered under the handle \<open>fd\<close>.
\<close>

definition client_connection_init :: "nat \<Rightarrow> nat \<Rightarrow> client_connection" where
  "client_connection_init u fd =
     \<lparr>uid = u, fd_handle = Some fd, partial_data = [], send_buffer = [],
      is_sending_data = False, callbacks = [], sock_out = []\<rparr>"

text \<open>
  \<^verbatim>\<open>WebRequest.__init__\<close>: three subscripts of the decoded value. A dict without the key
  raises \<^verbatim>\<open>KeyError\<close>, a value that is not a dict raises \<^verbatim>\<open>TypeError\<close>.
\<close>

definition web_request_init :: "nat \<Rightarrow> json \<Rightarrow> exn + web_request" where
  "web_request_init cconn base_request =
     (case base_request of
        JObj kvs \<Rightarrow>
          (case map_of kvs ''id'' of
             None \<Rightarrow> Inl (OtherException ''id'')
           | Some i \<Rightarrow>
               (case map_of kvs ''path'' of
                  None \<Rightarrow> Inl (OtherException ''path'')
                | Some p \<Rightarrow>
                    (case map_of kvs ''args'' of
                       None \<Rightarrow> Inl (OtherException ''args'')
                     | Some a \<Rightarrow>
                         Inr \<lparr>client_conn = cconn, id_req = i, path = p, args = a,
                              response = JNull\<rparr>)))
      | _ \<Rightarrow> Inl (OtherException ''TypeError''))"

text \<open>
  The body of the \<^verbatim>\<open>try\<close> in \<^verbatim>\<open>process_received\<close>: decode one frame and build the
  request. Any exception is logged and the frame is skipped (\<open>None\<close>).
\<close>

definition decode_request :: "py_runtime \<Rightarrow> nat \<Rightarrow> string \<Rightarrow> web_request option" where
  "decode_request rt cconn req =
     (case json_loads_byteified rt req of
        None \<Rightarrow> None
      | Some v \<Rightarrow> (case web_request_init cconn v of Inl e \<Rightarrow> None | Inr wr \<Rightarrow> Some wr))"

text \<open>
  \<^verbatim>\<open>
  requests = data.split('\x03')
  requests[0] = self.partial_data + requests[0]
  self.partial_data = requests.pop()
  \<close>
  The result is the list of complete frames and the new \<^verbatim>\<open>partial_data\<close>.
\<close>

definition take_frames :: "string \<Rightarrow> string \<Rightarrow> string list \<times> string" where
  "take_frames partial data =
     (let requests = str_split ETX data;
          requests = (partial @ hd requests) # tl requests
      in (butlast requests, last requests))"

text \<open>
  \<^verbatim>\<open>ClientConnection.process_received\<close>, given what \<^verbatim>\<open>recv\<close> did: an error other than
  \<^verbatim>\<open>EBADF\<close> returns at once, \<^verbatim>\<open>EBADF\<close> and an empty read close the connection, and data
  is cut into frames, each decoded frame registered as a callback.
\<close>

definition process_received ::
  "py_runtime \<Rightarrow> recv_result \<Rightarrow> client_connection \<Rightarrow> client_connection" where
  "process_received rt r c =
     (case (case r of Recv d \<Rightarrow> Some d
                    | RecvError e \<Rightarrow> if e = EBADF then Some [] else None) of
        None \<Rightarrow> c
      | Some data \<Rightarrow>
          if data = [] then close c
          else
            (let (requests, rest) = take_frames (partial_data c) data
             in c\<lparr>partial_data := rest,
                  callbacks := callbacks c @
                    map ProcessRequest (List.map_filter (decode_request rt (uid c)) requests)\<rparr>))"

text \<open>
  \<^verbatim>\<open>
  def send(self, data):
      self.send_buffer += json.dumps(data) + "\x03"
      if not self.is_sending_data:
          self.is_sending_data = True
          self.reactor.register_callback(self._do_send)
  \<close>
\<close>

definition conn_send :: "py_runtime \<Rightarrow> json \<Rightarrow> client_connection \<Rightarrow> client_connection" where
  "conn_send rt data c =
     (let c' = c\<lparr>send_buffer := send_buffer c @ json_dumps rt data @ [ETX]\<rparr>
      in if \<not> is_sending_data c'
         then c'\<lparr>is_sending_data := True, callbacks := callbacks c' @ [DoSend]\<rparr>
         else c')"

text \<open>
  One pass through the \<^verbatim>\<open>while self.send_buffer\<close> loop of \<^verbatim>\<open>_do_send\<close>, from the loop
  test on, with \<open>retries\<close> the local counter and \<open>r\<close> what \<^verbatim>\<open>sock.send\<close> does if it is
  called. \<open>Some n\<close> goes back to the loop test with the counter \<open>n\<close> (after
  \<^verbatim>\<open>reactor.pause\<close> when the send failed); \<open>None\<close> leaves the loop, through the test or
  through \<^verbatim>\<open>break\<close>, and runs the statement after it, \<^verbatim>\<open>self.is_sending_data = False\<close>.
\<close>

definition do_send_step ::
  "send_result \<Rightarrow> nat \<Rightarrow> client_connection \<Rightarrow> nat option \<times> client_connection" where
  "do_send_step r retries c =
     (if send_buffer c = [] then (None, c\<lparr>is_sending_data := False\<rparr>)
      else
        (case r of
           Sent n \<Rightarrow>
             if n > 0
             then (Some 10, c\<lparr>send_buffer := drop n (send_buffer c),
                               sock_out := sock_out c @ take n (send_buffer c)\<rparr>)
             else (None, (close c)\<lparr>is_sending_data := False\<rparr>)
         | SendError e \<Rightarrow>
             if e = EBADF \<or> e = EPIPE \<or> retries = 0
             then (None, (close c)\<lparr>is_sending_data := False\<rparr>)
             else (Some (retries - 1), c)))"

text \<open>
  \<^verbatim>\<open>_do_send\<close> run to its end with nothing else scheduled in between: \<open>sock i\<close> is
  the outcome of the \<open>i\<close>-th call of \<^verbatim>\<open>sock.send\<close> from here on.
\<close>

function do_send_loop ::
  "(nat \<Rightarrow> send_result) \<Rightarrow> nat \<Rightarrow> client_connection \<Rightarrow> client_connection" where
  "do_send_loop sock retries c =
     (case do_send_step (sock 0) retries c of
        (None, c') \<Rightarrow> c'
      | (Some retries', c') \<Rightarrow> do_send_loop (\<lambda>i. sock (Suc i)) retries' c')"
  by pat_completeness auto
termination
proof (relation "measures [\<lambda>(sock, retries, c). length (send_buffer c),
                           \<lambda>(sock, retries, c). retries]")
  show "wf (measures [\<lambda>(sock, retries, c). length (send_buffer c),
                      \<lambda>(sock, retries, c). retries])"
    by simp
next
  fix sock :: "nat \<Rightarrow> send_result" and retries :: nat and c x1 x2 x2a
  assume "(x1, x2) = do_send_step (sock 0) retries c" and "x1 = Some x2a"
  then have "do_send_step (sock 0) retries c = (Some x2a, x2)"
    by simp
  then have "length (send_buffer x2) < length (send_buffer c) \<or>
             (length (send_buffer x2) = length (send_buffer c) \<and> x2a < retries)"
    by (auto simp: do_send_step_def split: if_splits send_result.splits)
  then show "((\<lambda>i. sock (Suc i), x2a, x2), sock, retries, c)
             \<in> measures [\<lambda>(sock, retries, c). length (send_buffer c),
                          \<lambda>(sock, retries, c). retries]"
    by auto
qed

declare do_send_loop.simps [simp del]

definition do_send :: "(nat \<Rightarrow> send_result) \<Rightarrow> client_connection \<Rightarrow> client_connection" where
  "do_send sock c = do_send_loop sock 10 c"

text \<open>
  What can happen to the send side of one connection, one event at a time: some caller
  of \<^verbatim>\<open>send\<close> enqueues a value; the reactor starts a registered \<^verbatim>\<open>_do_send\<close>; the
  \<open>i\<close>-th \<^verbatim>\<open>_do_send\<close> that has started and not yet returned makes one pass through its
  loop. The state is the list of the \<^verbatim>\<open>retries\<close> counters of those running
  \<^verbatim>\<open>_do_send\<close> calls, and the connection. The reactor only lets another event in while
  \<^verbatim>\<open>_do_send\<close> pauses; here one may come between any two passes.
\<close>

datatype send_event = Enqueue json | StartDoSend | LoopPass nat send_result

fun run_event ::
  "py_runtime \<Rightarrow> send_event \<Rightarrow> nat list \<times> client_connection \<Rightarrow> nat list \<times> client_connection" where
  "run_event rt (Enqueue data) (loops, c) = (loops, conn_send rt data c)"
| "run_event rt StartDoSend (loops, c) =
     (if DoSend \<in> set (callbacks c)
      then (loops @ [10], c\<lparr>callbacks := remove1 DoSend (callbacks c)\<rparr>)
      else (loops, c))"
| "run_event rt (LoopPass i r) (loops, c) =
     (if i < length loops then
        (case do_send_step r (loops ! i) c of
           (None, c') \<Rightarrow> (take i loops @ drop (Suc i) loops, c')
         | (Some retries, c') \<Rightarrow> (loops[i := retries], c'))
      else (loops, c))"

text \<open>The values enqueued by a list of events, in their order.\<close>

fun enqueued :: "send_event list \<Rightarrow> json list" where
  "enqueued [] = []"
| "enqueued (Enqueue data # es) = data # enqueued es"
| "enqueued (e # es) = enqueued es"

section \<open>Endpoints and dispatch\<close>

text \<open>
  What this module reads and calls on the \<^verbatim>\<open>printer\<close> object. \<open>shutdown_calls\<close> is the
  list of the reasons \<^verbatim>\<open>invoke_shutdown\<close> was called with, oldest first; the other
  fields are what \<^verbatim>\<open>get_state_message\<close>, \<^verbatim>\<open>get_start_args\<close>, \<^verbatim>\<open>socket.gethostname\<close>,
  the module's directory and \<^verbatim>\<open>sys.executable\<close> return.
\<close>

record printer =
  shutdown_calls :: "string list"
  state_message :: string
  state :: string
  start_args :: "(string \<times> json) list"
  hostname :: string
  klipper_path :: string
  python_path :: string

definition invoke_shutdown :: "string \<Rightarrow> printer \<Rightarrow> printer" where
  "invoke_shutdown msg pr = pr\<lparr>shutdown_calls := shutdown_calls pr @ [msg]\<rparr>"

text \<open>
  A handler is called with the request and may change it, may act on the printer, and
  returns or raises: the first component is the exception it raised, if any, the
  others are the request and the printer as it left them.
\<close>

type_synonym handler = "web_request \<Rightarrow> printer \<Rightarrow> exn option \<times> web_request \<times> printer"

text \<open>
  The values of \<^verbatim>\<open>WebHooks._endpoints\<close>: the three bound methods of \<^verbatim>\<open>WebHooks\<close> itself
  and the callbacks other modules register.
\<close>

datatype endpoint = ListEndpoints | InfoRequest | EstopRequest | Callback handler

record webhooks =
  endpoints :: "(string \<times> endpoint) list"

text \<open>
  \<^verbatim>\<open>
  def register_endpoint(self, path, callback):
      if path in self._endpoints:
          raise WebRequestError("Path already registered to an endpoint")
      self._endpoints[path] = callback
  \<close>
\<close>

definition register_endpoint :: "string \<Rightarrow> endpoint \<Rightarrow> webhooks \<Rightarrow> exn + webhooks" where
  "register_endpoint p cb wh =
     (if p \<in> fst ` set (endpoints wh)
      then Inl (WebRequestError ''Path already registered to an endpoint'')
      else Inr (wh\<lparr>endpoints := endpoints wh @ [(p, cb)]\<rparr>))"

text \<open>The endpoint table \<^verbatim>\<open>WebHooks.__init__\<close> builds.\<close>

definition webhooks_init :: webhooks where
  "webhooks_init =
     \<lparr>endpoints = [(''list_endpoints'', ListEndpoints), (''info'', InfoRequest),
                   (''emergency_stop'', EstopRequest)]\<rparr>"

text \<open>A handler that calls \<^verbatim>\<open>web_request.send(data)\<close> and returns.\<close>

definition send_and_return :: "json \<Rightarrow> handler" where
  "send_and_return data wr pr =
     (case send data wr of Inl e \<Rightarrow> (Some e, wr, pr) | Inr wr' \<Rightarrow> (None, wr', pr))"

definition handle_list_endpoints :: "webhooks \<Rightarrow> handler" where
  "handle_list_endpoints wh =
     send_and_return (JObj [(''endpoints'', JList (map (\<lambda>kv. JStr (fst kv)) (endpoints wh)))])"

text \<open>\<^verbatim>\<open>start_args.get(sa)\<close>: the value, or \<^verbatim>\<open>None\<close>.\<close>

definition dict_get :: "(string \<times> json) list \<Rightarrow> string \<Rightarrow> json" where
  "dict_get d k = (case map_of d k of None \<Rightarrow> JNull | Some v \<Rightarrow> v)"

definition handle_info_request :: handler where
  "handle_info_request wr pr =
     send_and_return
       (JObj ([(''state'', JStr (state pr)), (''state_message'', JStr (state_message pr)),
               (''hostname'', JStr (hostname pr)), (''klipper_path'', JStr (klipper_path pr)),
               (''python_path'', JStr (python_path pr))] @
              map (\<lambda>sa. (sa, dict_get (start_args pr) sa))
                [''log_file'', ''config_file'', ''software_version'', ''cpu_info''])) wr pr"

definition handle_estop_request :: handler where
  "handle_estop_request wr pr =
     (None, wr, invoke_shutdown ''Shutdown due to webhooks request'' pr)"

definition call_endpoint :: "webhooks \<Rightarrow> endpoint \<Rightarrow> handler" where
  "call_endpoint wh ep =
     (case ep of
        ListEndpoints \<Rightarrow> handle_list_endpoints wh
      | InfoRequest \<Rightarrow> handle_info_request
      | EstopRequest \<Rightarrow> handle_estop_request
      | Callback f \<Rightarrow> f)"

text \<open>A text between single quotes.\<close>

definition quoted :: "string \<Rightarrow> string" where
  "quoted s = [CHR 0x27] @ s @ [CHR 0x27]"

text \<open>
  \<^verbatim>\<open>
  def get_callback(self, path):
      cb = self._endpoints.get(path, None)
      if cb is None:
          msg = "webhooks: No registered callback for path '%s'" % (path)
          raise WebRequestError(msg)
      return cb
  \<close>
  The keys of the table are strings. A path that is a list or a dict cannot be hashed,
  and \<^verbatim>\<open>dict.get\<close> raises \<^verbatim>\<open>TypeError\<close>; any other path that is not a string is not a
  key.
\<close>

definition get_callback :: "py_runtime \<Rightarrow> webhooks \<Rightarrow> json \<Rightarrow> exn + endpoint" where
  "get_callback rt wh p =
     (case p of
        JList xs \<Rightarrow> Inl (OtherException (''unhashable type: '' @ quoted ''list''))
      | JObj kvs \<Rightarrow> Inl (OtherException (''unhashable type: '' @ quoted ''dict''))
      | _ \<Rightarrow>
          (case (case p of JStr s \<Rightarrow> map_of (endpoints wh) s | _ \<Rightarrow> None) of
             None \<Rightarrow>
               Inl (WebRequestError
                      (''webhooks: No registered callback for path '' @ quoted (py_str rt p)))
           | Some cb \<Rightarrow> Inr cb))"

text \<open>
  The body of the \<^verbatim>\<open>try\<close> statement of \<^verbatim>\<open>_process_request\<close>: look the handler up and
  call it. The result is the exception raised, if any, by the lookup or by the handler,
  and the request and the printer at that moment.
\<close>

definition dispatch ::
  "py_runtime \<Rightarrow> webhooks \<Rightarrow> web_request \<Rightarrow> printer \<Rightarrow> exn option \<times> web_request \<times> printer" where
  "dispatch rt wh wr pr =
     (case get_callback rt wh (path wr) of
        Inl e \<Rightarrow> (Some e, wr, pr)
      | Inr func \<Rightarrow> call_endpoint wh func wr pr)"

text \<open>
  The \<^verbatim>\<open>try\<close> statement with its two \<^verbatim>\<open>except\<close> clauses: a \<^verbatim>\<open>CommandError\<close> becomes the
  error of the request; any other exception does too, and shuts the host down.
\<close>

definition run_request ::
  "py_runtime \<Rightarrow> webhooks \<Rightarrow> web_request \<Rightarrow> printer \<Rightarrow> web_request \<times> printer" where
  "run_request rt wh wr pr =
     (let (raised, wr', pr') = dispatch rt wh wr pr
      in case raised of
           None \<Rightarrow> (wr', pr')
         | Some e \<Rightarrow>
             if is_command_error e
             then (set_error (WebRequestError (message e)) wr', pr')
             else (set_error (WebRequestError (message e)) wr',
                   invoke_shutdown (''Internal Error on WebRequest: '' @ py_str rt (path wr')) pr'))"

text \<open>
  \<^verbatim>\<open>
  result = web_request.finish()
  self.send({'method': "response", 'params': result})
  \<close>
\<close>

definition process_request ::
  "py_runtime \<Rightarrow> webhooks \<Rightarrow> web_request \<Rightarrow> client_connection \<times> printer
     \<Rightarrow> client_connection \<times> printer" where
  "process_request rt wh wr cp =
     (let (wr', pr') = run_request rt wh wr (snd cp);
          result = snd (finish wr')
      in (conn_send rt (JObj [(''method'', JStr ''response''), (''params'', result)]) (fst cp),
          pr'))"

section \<open>The status handler\<close>

text \<open>
  A reactor timer's wake time: \<^verbatim>\<open>reactor.NOW\<close>, \<^verbatim>\<open>reactor.NEVER\<close>, or a time of the
  monotonic clock.
\<close>

datatype waketime = NOW | NEVER | At nat

text \<open>
  \<^verbatim>\<open>class StatusHandler\<close>. The three dicts are association lists, read with \<open>map_of\<close>
  and written with \<open>AList.update\<close>: \<open>available_objects\<close> from object name to the
  keys of its status, \<open>subscriptions\<close> from object name to what is subscribed of it,
  \<open>clients\<close> from connection to its template. \<open>subscription_timer\<close> is the wake time of
  the timer registered in \<^verbatim>\<open>__init__\<close>.

  The values of \<open>subscriptions\<close> are of type \<open>'v\<close>. The code stores there what the
  requests carry, any decoded JSON value: that is a \<open>raw_status_handler\<close>. A request
  that follows the protocol carries lists of field names (the empty list stands for all
  fields), and the table of a handler that has only seen such requests holds lists of
  field names: that is a \<open>status_handler\<close>.
\<close>

record 'v status_handler_state =
  ready :: bool
  timer_started :: bool
  available_objects :: "(string \<times> string list) list"
  subscriptions :: "(string \<times> 'v) list"
  subscription_timer :: waketime
  clients :: "(nat \<times> json) list"

type_synonym status_handler = "string list status_handler_state"

type_synonym raw_status_handler = "json status_handler_state"

text \<open>The state \<^verbatim>\<open>StatusHandler.__init__\<close> builds.\<close>

definition status_handler_init :: "'v status_handler_state" where
  "status_handler_init =
     \<lparr>ready = False, timer_started = False, available_objects = [], subscriptions = [],
      subscription_timer = NEVER, clients = []\<rparr>"

text \<open>
  \<^verbatim>\<open>_handle_ready\<close>, given for every object of \<^verbatim>\<open>printer.lookup_objects()\<close> its name and,
  when it has a \<^verbatim>\<open>get_status\<close> method, the keys of the dict that method returns.
\<close>

definition handle_ready ::
  "(string \<times> string list option) list \<Rightarrow> 'v status_handler_state \<Rightarrow> 'v status_handler_state" where
  "handle_ready objs sh =
     sh\<lparr>available_objects :=
          fold (\<lambda>(n, st) al. case st of None \<Rightarrow> al | Some attrs \<Rightarrow> AList.update n attrs al) objs [],
        ready := True\<rparr>"

text \<open>
  \<^verbatim>\<open>
  def _handle_restart(self, eventtime):
      self.ready = False
      self.reactor.update_timer(self.subscription_timer, self.reactor.NEVER)
  \<close>
\<close>

definition handle_restart :: "'v status_handler_state \<Rightarrow> 'v status_handler_state" where
  "handle_restart sh = sh\<lparr>ready := False, subscription_timer := NEVER\<rparr>"

subsection \<open>Subscriptions of lists of field names\<close>

text \<open>
  \<^verbatim>\<open>add_subscripton\<close> on a request that maps object names to lists of field names, as the
  protocol has it. What the code does on any other request is defined further down.

  Python's sets of field names are lists without duplicates here. Python does not say
  in which order \<^verbatim>\<open>list(a_set)\<close> lists the elements, so what is proved about a field
  list below is proved about its \<open>set\<close>. \<open>set_minus xs ys\<close> is
  \<^verbatim>\<open>set(xs) - set(ys)\<close> and \<open>set_union xs ys\<close> is \<^verbatim>\<open>set(xs) | set(ys)\<close>.
\<close>

definition set_minus :: "string list \<Rightarrow> string list \<Rightarrow> string list" where
  "set_minus xs ys = filter (\<lambda>x. x \<notin> set ys) (remdups xs)"

definition set_union :: "string list \<Rightarrow> string list \<Rightarrow> string list" where
  "set_union xs ys = remdups (xs @ ys)"

text \<open>
  The validation in the loop of \<^verbatim>\<open>add_subscripton\<close>, for an object of the catalog:
  \<^verbatim>\<open>
  if req_items:
      avail_items = set(self.available_objects[obj_name])
      invalid_items = set(req_items) - avail_items
      if invalid_items:
          req_items = list(set(req_items) - invalid_items)
          if not req_items:
              continue
  \<close>
  \<open>None\<close> is the \<^verbatim>\<open>continue\<close>, \<open>Some\<close> the value of \<^verbatim>\<open>req_items\<close> afterwards.
\<close>

definition validate_items :: "string list \<Rightarrow> string list \<Rightarrow> string list option" where
  "validate_items avail req_items =
     (if req_items \<noteq> [] then
        (let invalid_items = set_minus req_items avail
         in if invalid_items \<noteq> [] then
              (let req_items' = set_minus req_items invalid_items
               in if req_items' = [] then None else Some req_items')
            else Some req_items)
      else Some req_items)"

text \<open>
  The end of the loop body:
  \<^verbatim>\<open>
  existing_items = self.subscriptions.get(obj_name, None)
  if existing_items is not None:
      if req_items == [] or existing_items == []:
          self.subscriptions[obj_name] = []
      else:
          req_items = list(set(req_items) | set(existing_items))
          self.subscriptions[obj_name] = req_items
  else:
      self.subscriptions[obj_name] = req_items
  \<close>
  \<open>merge_items\<close> is the list stored for the object.
\<close>

definition merge_items :: "string list option \<Rightarrow> string list \<Rightarrow> string list" where
  "merge_items existing_items req_items =
     (case existing_items of
        Some existing \<Rightarrow>
          if req_items = [] \<or> existing = [] then [] else set_union req_items existing
      | None \<Rightarrow> req_items)"

text \<open>The loop body of \<^verbatim>\<open>add_subscripton\<close> for one \<^verbatim>\<open>(obj_name, req_items)\<close>.\<close>

definition subscribe_item :: "string \<times> string list \<Rightarrow> status_handler \<Rightarrow> status_handler" where
  "subscribe_item item sh =
     (let (obj_name, req_items) = item in
      case map_of (available_objects sh) obj_name of
        None \<Rightarrow> sh
      | Some avail \<Rightarrow>
          (case validate_items avail req_items of
             None \<Rightarrow> sh
           | Some req_items' \<Rightarrow>
               sh\<lparr>subscriptions :=
                    AList.update obj_name
                      (merge_items (map_of (subscriptions sh) obj_name) req_items')
                      (subscriptions sh)\<rparr>))"

text \<open>
  \<^verbatim>\<open>add_subscripton\<close>: nothing for an empty request; otherwise the loop over the
  request's items, and then
  \<^verbatim>\<open>
  if not self.timer_started:
      self.reactor.update_timer(self.subscription_timer, self.reactor.NOW)
      self.timer_started = True
  \<close>
\<close>

definition add_subscripton :: "(string \<times> string list) list \<Rightarrow> status_handler \<Rightarrow> status_handler" where
  "add_subscripton new_sub sh =
     (if new_sub = [] then sh
      else
        (let sh' = fold subscribe_item new_sub sh
         in if \<not> timer_started sh'
            then sh'\<lparr>subscription_timer := NOW, timer_started := True\<rparr>
            else sh'))"

subsection \<open>Python's view of decoded values\<close>

text \<open>Python's truth value of a decoded JSON value.\<close>

fun truthy :: "json \<Rightarrow> bool" where
  "truthy JNull = False"
| "truthy (JBool b) = b"
| "truthy (JInt n) = (n \<noteq> 0)"
| "truthy (JStr s) = (s \<noteq> [])"
| "truthy (JList xs) = (xs \<noteq> [])"
| "truthy (JObj kvs) = (kvs \<noteq> [])"

text \<open>The name Python prints for the type of a value, integers as on a 64-bit build.\<close>

fun type_name :: "json \<Rightarrow> string" where
  "type_name JNull = ''NoneType''"
| "type_name (JBool b) = ''bool''"
| "type_name (JInt n) = (if n < - (2 ^ 63) \<or> 2 ^ 63 \<le> n then ''long'' else ''int'')"
| "type_name (JStr s) = ''str''"
| "type_name (JList xs) = ''list''"
| "type_name (JObj kvs) = ''dict''"

text \<open>The decimal digits of a number.\<close>

fun dec_nat :: "nat \<Rightarrow> string" where
  "dec_nat n =
     (if n < 10 then [''0123456789'' ! n]
      else dec_nat (n div 10) @ [''0123456789'' ! (n mod 10)])"

declare dec_nat.simps [simp del]

subsection \<open>Python's sets of decoded values\<close>

text \<open>
  The values that can be hashed, and so can be the key of a dict or the element of a
  set: all but lists and dicts.
\<close>

fun hashable :: "json \<Rightarrow> bool" where
  "hashable (JList xs) = False"
| "hashable (JObj kvs) = False"
| "hashable v = True"

text \<open>
  Two hashable values are equal for Python when they are the same value, or when one is
  \<^verbatim>\<open>True\<close> or \<^verbatim>\<open>False\<close> and the other is the number 1 or 0. \<open>py_key\<close> maps equal values to
  one value.
\<close>

fun py_key :: "json \<Rightarrow> json" where
  "py_key (JBool b) = JInt (if b then 1 else 0)"
| "py_key v = v"

text \<open>
  A set is the list of its elements. Of equal values a set keeps the one added first.
  Python does not say in which order a set lists its elements: here an element stands
  where the last value equal to it stood, as in \<open>remdups\<close>.
\<close>

primrec py_dedup :: "json list \<Rightarrow> json list" where
  "py_dedup [] = []"
| "py_dedup (x # xs) =
     (if py_key x \<in> py_key ` set xs
      then map (\<lambda>y. if py_key y = py_key x then x else y) (py_dedup xs)
      else x # py_dedup xs)"

text \<open>
  What iterating over a value yields: the items of a list, the characters of a string,
  the keys of a dict; \<^verbatim>\<open>TypeError\<close> for \<^verbatim>\<open>None\<close>, a bool or a number.
\<close>

fun py_iter :: "json \<Rightarrow> exn + json list" where
  "py_iter (JStr s) = Inr (map (\<lambda>c. JStr [c]) s)"
| "py_iter (JList xs) = Inr xs"
| "py_iter (JObj kvs) = Inr (map (\<lambda>kv. JStr (fst kv)) kvs)"
| "py_iter v = Inl (OtherException (quoted (type_name v) @ '' object is not iterable''))"

text \<open>\<^verbatim>\<open>set(v)\<close>: \<^verbatim>\<open>TypeError\<close> when \<open>v\<close> cannot be iterated or yields a list or a dict.\<close>

definition py_set :: "json \<Rightarrow> exn + json list" where
  "py_set v =
     (case py_iter v of
        Inl e \<Rightarrow> Inl e
      | Inr xs \<Rightarrow>
          (case filter (\<lambda>x. \<not> hashable x) xs of
             [] \<Rightarrow> Inr (py_dedup xs)
           | u # us \<Rightarrow> Inl (OtherException (''unhashable type: '' @ quoted (type_name u)))))"

text \<open>
  \<^verbatim>\<open>", ".join(items)\<close> raises \<^verbatim>\<open>TypeError\<close> at the first item that is not a string; \<open>i\<close> is
  the position of the first item of the list. The message names the position of the
  item in the order of the set, which is the order of the list here.
\<close>

fun join_error :: "nat \<Rightarrow> json list \<Rightarrow> exn option" where
  "join_error i [] = None"
| "join_error i (JStr s # xs) = join_error (Suc i) xs"
| "join_error i (x # xs) =
     Some (OtherException
             (''sequence item '' @ dec_nat i @ '': expected string, '' @ type_name x @ '' found''))"

subsection \<open>Subscriptions of any decoded value\<close>

text \<open>
  The validation in the loop of \<^verbatim>\<open>add_subscripton\<close> as it runs on any value of
  \<^verbatim>\<open>req_items\<close>. \<open>Inl\<close> is the exception raised, \<open>Inr None\<close> the \<^verbatim>\<open>continue\<close>, \<open>Inr (Some v)\<close>
  the value of \<^verbatim>\<open>req_items\<close> afterwards: the request's own value when nothing was invalid,
  a list otherwise. The keys of \<^verbatim>\<open>available_objects\<close> are strings, so a value that is
  not a string is always invalid, and \<^verbatim>\<open>join\<close> raises on it.
\<close>

definition validate_items_raw :: "string list \<Rightarrow> json \<Rightarrow> exn + json option" where
  "validate_items_raw avail req_items =
     (if truthy req_items then
        (case py_set req_items of
           Inl e \<Rightarrow> Inl e
         | Inr items \<Rightarrow>
             (let invalid_items = filter (\<lambda>x. py_key x \<notin> JStr ` set avail) items
              in if invalid_items \<noteq> [] then
                   (case join_error 0 invalid_items of
                      Some e \<Rightarrow> Inl e
                    | None \<Rightarrow>
                        (let req_items' =
                               filter (\<lambda>x. py_key x \<notin> py_key ` set invalid_items) items
                         in if req_items' = [] then Inr None
                            else Inr (Some (JList req_items'))))
                 else Inr (Some req_items)))
      else Inr (Some req_items))"

text \<open>
  The end of the loop body on any values. A stored \<^verbatim>\<open>None\<close> fails the test
  \<^verbatim>\<open>existing_items is not None\<close>, as a missing entry does; only the empty list is equal to
  \<^verbatim>\<open>[]\<close>; and \<^verbatim>\<open>set(req_items)\<close> is computed before \<^verbatim>\<open>set(existing_items)\<close>.
\<close>

definition merge_items_raw :: "json option \<Rightarrow> json \<Rightarrow> exn + json" where
  "merge_items_raw existing_items req_items =
     (case existing_items of
        None \<Rightarrow> Inr req_items
      | Some JNull \<Rightarrow> Inr req_items
      | Some existing \<Rightarrow>
          if req_items = JList [] \<or> existing = JList [] then Inr (JList [])
          else
            (case py_set req_items of
               Inl e \<Rightarrow> Inl e
             | Inr a \<Rightarrow>
                 (case py_set existing of
                    Inl e \<Rightarrow> Inl e
                  | Inr b \<Rightarrow> Inr (JList (py_dedup (a @ b))))))"

text \<open>
  The loop body for one \<^verbatim>\<open>(obj_name, req_items)\<close>: the exception it raises, or the state
  after it. An exception is raised before the table is written.
\<close>

definition subscribe_item_raw ::
  "string \<times> json \<Rightarrow> raw_status_handler \<Rightarrow> exn + raw_status_handler" where
  "subscribe_item_raw item sh =
     (let (obj_name, req_items) = item in
      case map_of (available_objects sh) obj_name of
        None \<Rightarrow> Inr sh
      | Some avail \<Rightarrow>
          (case validate_items_raw avail req_items of
             Inl e \<Rightarrow> Inl e
           | Inr None \<Rightarrow> Inr sh
           | Inr (Some req_items') \<Rightarrow>
               (case merge_items_raw (map_of (subscriptions sh) obj_name) req_items' of
                  Inl e \<Rightarrow> Inl e
                | Inr merged \<Rightarrow>
                    Inr (sh\<lparr>subscriptions :=
                              AList.update obj_name merged (subscriptions sh)\<rparr>))))"

text \<open>
  The loop: it ends at the first exception, and the table keeps what the items before
  have written. The items of the request are taken in the order of the association
  list; Python 2 does not say in which order a dict lists its items.
\<close>

fun subscribe_items_raw ::
  "(string \<times> json) list \<Rightarrow> raw_status_handler \<Rightarrow> exn option \<times> raw_status_handler" where
  "subscribe_items_raw [] sh = (None, sh)"
| "subscribe_items_raw (item # items) sh =
     (case subscribe_item_raw item sh of
        Inl e \<Rightarrow> (Some e, sh)
      | Inr sh' \<Rightarrow> subscribe_items_raw items sh')"

text \<open>
  \<^verbatim>\<open>add_subscripton\<close> on any value: nothing for a false one; \<^verbatim>\<open>AttributeError\<close> for a true
  one that is not a dict, which has no \<^verbatim>\<open>items\<close>; for a dict the loop and, unless the loop
  raised, the start of the timer. The result is the exception raised, if any, and the
  handler's state.
\<close>

definition add_subscripton_raw ::
  "json \<Rightarrow> raw_status_handler \<Rightarrow> exn option \<times> raw_status_handler" where
  "add_subscripton_raw new_sub sh =
     (if \<not> truthy new_sub then (None, sh)
      else
        (case new_sub of
           JObj kvs \<Rightarrow>
             (case subscribe_items_raw kvs sh of
                (Some e, sh') \<Rightarrow> (Some e, sh')
              | (None, sh') \<Rightarrow>
                  (None,
                   if \<not> timer_started sh'
                   then sh'\<lparr>subscription_timer := NOW, timer_started := True\<rparr>
                   else sh'))
         | a \<Rightarrow>
             (Some (OtherException
                      (quoted (type_name a) @ '' object has no attribute '' @ quoted ''items'')),
              sh)))"

text \<open>
  \<^verbatim>\<open>
  def _handle_subscription_request(self, web_request):
      args = web_request.get_args()
      if not args:
          raise web_request.error("Invalid argument")
      self.add_subscripton(args)
      cconn = web_request.get_client_connection()
      template = web_request.get('response_template', {})
      self.clients[cconn] = template
  \<close>
  \<^verbatim>\<open>web_request.error\<close> is \<^verbatim>\<open>WebRequestError\<close>. An exception of \<^verbatim>\<open>add_subscripton\<close> leaves
  the handler before the client is recorded. The result is the exception raised, if
  any, and the handler's state.
\<close>

definition handle_subscription_request ::
  "web_request \<Rightarrow> raw_status_handler \<Rightarrow> exn option \<times> raw_status_handler" where
  "handle_subscription_request wr sh =
     (if \<not> truthy (args wr) then (Some (WebRequestError ''Invalid argument''), sh)
      else
        (case args wr of
           JObj kvs \<Rightarrow>
             (case add_subscripton_raw (JObj kvs) sh of
                (Some e, sh') \<Rightarrow> (Some e, sh')
              | (None, sh') \<Rightarrow>
                  (let template = (case map_of kvs ''response_template'' of
                                     None \<Rightarrow> JObj [] | Some t \<Rightarrow> t)
                   in (None,
                       sh'\<lparr>clients := AList.update (client_conn wr) template (clients sh')\<rparr>)))
         | a \<Rightarrow> add_subscripton_raw a sh))"

text \<open>
  A request of lists of field names as the dict it is sent as, and a handler whose table
  holds lists of field names as the handler the code has.
\<close>

definition field_list :: "string list \<Rightarrow> json" where
  "field_list fs = JList (map JStr fs)"

definition field_lists :: "(string \<times> string list) list \<Rightarrow> json" where
  "field_lists new_sub = JObj (map (\<lambda>kv. (fst kv, field_list (snd kv))) new_sub)"

definition raw_of :: "status_handler \<Rightarrow> raw_status_handler" where
  "raw_of sh =
     \<lparr>ready = ready sh, timer_started = timer_started sh,
      available_objects = available_objects sh,
      subscriptions = map (\<lambda>kv. (fst kv, field_list (snd kv))) (subscriptions sh),
      subscription_timer = subscription_timer sh, clients = clients sh\<rparr>"

text \<open>
  \<^verbatim>\<open>_handle_list_subscription_request\<close> sends \<^verbatim>\<open>dict(self.subscriptions)\<close>; this is the
  value sent.
\<close>

definition list_subscription :: "raw_status_handler \<Rightarrow> json" where
  "list_subscription sh = JObj (subscriptions sh)"

text \<open>
  A table of lists of field names read as a dict from object name to the set of the
  subscribed field names, the empty set for all fields.
\<close>

definition subscribed_fields :: "status_handler \<Rightarrow> string \<Rightarrow> string set option" where
  "subscribed_fields sh obj_name = map_option set (map_of (subscriptions sh) obj_name)"

text \<open>
  The reply of \<^verbatim>\<open>objects/list_subscription\<close> read the same way: the set of the field
  names listed for an object.
\<close>

definition listed_fields :: "json \<Rightarrow> string \<Rightarrow> string set option" where
  "listed_fields reply obj_name =
     (case reply of
        JObj kvs \<Rightarrow>
          (case map_of kvs obj_name of
             Some (JList xs) \<Rightarrow>
               Some (set (concat (map (\<lambda>x. case x of JStr s \<Rightarrow> [s] | _ \<Rightarrow> []) xs)))
           | _ \<Rightarrow> None)
      | _ \<Rightarrow> None)"

section \<open>A runtime for ASCII texts\<close>

text \<open>
  One runtime, to evaluate the operations on concrete inputs: \<open>dumps\<close> writes a value the
  way \<^verbatim>\<open>json.dumps\<close> does with its default arguments (\<^verbatim>\<open>", "\<close> and \<^verbatim>\<open>": "\<close> as
  separators, everything outside the printable ASCII characters escaped, the items of a
  dict in the order of the association list), and \<open>loads\<close> reads a JSON text of ASCII
  characters without floating point numbers; on any other text it gives \<open>None\<close>. It
  stands for \<^verbatim>\<open>json.loads\<close> on the texts it reads, and it is applied to no other text
  below.
\<close>

definition DQUOTE :: char where
  "DQUOTE = CHR 0x22"

definition BACKSLASH :: char where
  "BACKSLASH = CHR 0x5C"

definition join :: "string \<Rightarrow> string list \<Rightarrow> string" where
  "join sep xs = concat (case xs of [] \<Rightarrow> [] | y # ys \<Rightarrow> y # map (\<lambda>z. sep @ z) ys)"

definition dec_int :: "int \<Rightarrow> string" where
  "dec_int i = (if i < 0 then CHR ''-'' # dec_nat (nat (- i)) else dec_nat (nat i))"

definition hex_digit :: "nat \<Rightarrow> char" where
  "hex_digit n = ''0123456789abcdef'' ! n"

definition escape_char :: "char \<Rightarrow> string" where
  "escape_char c =
     (if c = DQUOTE then [BACKSLASH, DQUOTE]
      else if c = BACKSLASH then [BACKSLASH, BACKSLASH]
      else if c = CHR 0x0A then [BACKSLASH, CHR ''n'']
      else if c = CHR 0x0D then [BACKSLASH, CHR ''r'']
      else if c = CHR 0x09 then [BACKSLASH, CHR ''t'']
      else if c = CHR 0x08 then [BACKSLASH, CHR ''b'']
      else if c = CHR 0x0C then [BACKSLASH, CHR ''f'']
      else if (of_char c :: nat) < 0x20 \<or> (of_char c :: nat) \<ge> 0x7F
      then [BACKSLASH, CHR ''u'', CHR ''0'', CHR ''0'',
            hex_digit ((of_char c :: nat) div 16), hex_digit ((of_char c :: nat) mod 16)]
      else [c])"

definition dumps_str :: "string \<Rightarrow> string" where
  "dumps_str s = [DQUOTE] @ concat (map escape_char s) @ [DQUOTE]"

fun dumps :: "json \<Rightarrow> string" where
  "dumps JNull = ''null''"
| "dumps (JBool b) = (if b then ''true'' else ''false'')"
| "dumps (JInt i) = dec_int i"
| "dumps (JStr s) = dumps_str s"
| "dumps (JList xs) = ''['' @ join '', '' (map dumps xs) @ '']''"
| "dumps (JObj kvs) =
     ''{'' @ join '', '' (map (\<lambda>kv. dumps_str (fst kv) @ '': '' @ dumps (snd kv)) kvs) @ ''}''"

definition is_ws :: "char \<Rightarrow> bool" where
  "is_ws c = (c = CHR '' '' \<or> c = CHR 0x09 \<or> c = CHR 0x0A \<or> c = CHR 0x0D)"

definition skip_ws :: "string \<Rightarrow> string" where
  "skip_ws s = dropWhile is_ws s"

definition digit_val :: "char \<Rightarrow> nat option" where
  "digit_val c =
     (let n = (of_char c :: nat) in if 48 \<le> n \<and> n \<le> 57 then Some (n - 48) else None)"

definition hex_val :: "char \<Rightarrow> nat option" where
  "hex_val c =
     (let n = (of_char c :: nat) in
      if 48 \<le> n \<and> n \<le> 57 then Some (n - 48)
      else if 97 \<le> n \<and> n \<le> 102 then Some (n - 87)
      else if 65 \<le> n \<and> n \<le> 70 then Some (n - 55)
      else None)"

definition unescape :: "char \<Rightarrow> char option" where
  "unescape e =
     (if e = DQUOTE then Some DQUOTE
      else if e = BACKSLASH then Some BACKSLASH
      else if e = CHR ''/'' then Some (CHR ''/'')
      else if e = CHR ''n'' then Some (CHR 0x0A)
      else if e = CHR ''r'' then Some (CHR 0x0D)
      else if e = CHR ''t'' then Some (CHR 0x09)
      else if e = CHR ''b'' then Some (CHR 0x08)
      else if e = CHR ''f'' then Some (CHR 0x0C)
      else None)"

definition hex4 :: "char \<Rightarrow> char \<Rightarrow> char \<Rightarrow> char \<Rightarrow> nat option" where
  "hex4 a b c d =
     (case (hex_val a, hex_val b, hex_val c, hex_val d) of
        (Some w, Some x, Some y, Some z) \<Rightarrow> Some (((w * 16 + x) * 16 + y) * 16 + z)
      | _ \<Rightarrow> None)"

definition cons_fst :: "'a \<Rightarrow> ('a list \<times> 'b) option \<Rightarrow> ('a list \<times> 'b) option" where
  "cons_fst x r = (case r of None \<Rightarrow> None | Some (xs, rest) \<Rightarrow> Some (x # xs, rest))"

fun parse_str :: "string \<Rightarrow> (string \<times> string) option" where
  "parse_str [] = None"
| "parse_str (c # cs) =
     (if c = DQUOTE then Some ([], cs)
      else if c = BACKSLASH then
        (case cs of
           [] \<Rightarrow> None
         | e # cs' \<Rightarrow>
             if e = CHR ''u'' then
               (case cs' of
                  h1 # h2 # h3 # h4 # cs'' \<Rightarrow>
                    (case hex4 h1 h2 h3 h4 of
                       None \<Rightarrow> None
                     | Some n \<Rightarrow> if n < 0x80 then cons_fst (char_of n) (parse_str cs'') else None)
                | _ \<Rightarrow> None)
             else
               (case unescape e of
                  None \<Rightarrow> None
                | Some ch \<Rightarrow> cons_fst ch (parse_str cs')))
      else if (of_char c :: nat) < 0x20 \<or> (of_char c :: nat) \<ge> 0x80 then None
      else cons_fst c (parse_str cs))"

definition nat_of_digits :: "string \<Rightarrow> nat" where
  "nat_of_digits ds = foldl (\<lambda>n c. 10 * n + the (digit_val c)) 0 ds"

definition parse_nat :: "string \<Rightarrow> (nat \<times> string) option" where
  "parse_nat s =
     (case s of
        [] \<Rightarrow> None
      | c # cs \<Rightarrow>
          if c = CHR ''0'' then Some (0, cs)
          else
            (let ds = takeWhile (\<lambda>d. digit_val d \<noteq> None) s
             in if ds = [] then None else Some (nat_of_digits ds, dropWhile (\<lambda>d. digit_val d \<noteq> None) s)))"

definition parse_int :: "string \<Rightarrow> (json \<times> string) option" where
  "parse_int s =
     (case (case s of
              [] \<Rightarrow> None
            | c # cs \<Rightarrow>
                if c = CHR ''-''
                then (case parse_nat cs of None \<Rightarrow> None | Some (n, r) \<Rightarrow> Some (- int n, r))
                else (case parse_nat s of None \<Rightarrow> None | Some (n, r) \<Rightarrow> Some (int n, r))) of
        None \<Rightarrow> None
      | Some (i, r) \<Rightarrow>
          (case r of
             [] \<Rightarrow> Some (JInt i, r)
           | d # r' \<Rightarrow> if d = CHR ''.'' \<or> d = CHR ''e'' \<or> d = CHR ''E'' then None else Some (JInt i, r)))"

definition mk_dict :: "(string \<times> json) list \<Rightarrow> json" where
  "mk_dict kvs = JObj (fold (\<lambda>kv al. AList.update (fst kv) (snd kv) al) kvs [])"

fun parse_value :: "nat \<Rightarrow> string \<Rightarrow> (json \<times> string) option"
  and parse_elems :: "nat \<Rightarrow> string \<Rightarrow> (json list \<times> string) option"
  and parse_members :: "nat \<Rightarrow> string \<Rightarrow> ((string \<times> json) list \<times> string) option" where
  "parse_value 0 s = None"
| "parse_value (Suc n) s =
     (case skip_ws s of
        [] \<Rightarrow> None
      | c # cs \<Rightarrow>
          if c = CHR ''n'' then (if take 3 cs = ''ull'' then Some (JNull, drop 3 cs) else None)
          else if c = CHR ''t'' then (if take 3 cs = ''rue'' then Some (JBool True, drop 3 cs) else None)
          else if c = CHR ''f'' then (if take 4 cs = ''alse'' then Some (JBool False, drop 4 cs) else None)
          else if c = DQUOTE then
            (case parse_str cs of None \<Rightarrow> None | Some (str, r) \<Rightarrow> Some (JStr str, r))
          else if c = CHR ''['' then
            (case skip_ws cs of
               [] \<Rightarrow> None
             | d # r \<Rightarrow>
                 if d = CHR '']'' then Some (JList [], r)
                 else (case parse_elems n cs of None \<Rightarrow> None | Some (vs, r') \<Rightarrow> Some (JList vs, r')))
          else if c = CHR ''{'' then
            (case skip_ws cs of
               [] \<Rightarrow> None
             | d # r \<Rightarrow>
                 if d = CHR ''}'' then Some (JObj [], r)
                 else (case parse_members n cs of None \<Rightarrow> None | Some (kvs, r') \<Rightarrow> Some (mk_dict kvs, r')))
          else parse_int (c # cs))"
| "parse_elems 0 s = None"
| "parse_elems (Suc n) s =
     (case parse_value n s of
        None \<Rightarrow> None
      | Some (v, r) \<Rightarrow>
          (case skip_ws r of
             [] \<Rightarrow> None
           | d # r' \<Rightarrow>
               if d = CHR '','' then cons_fst v (parse_elems n r')
               else if d = CHR '']'' then Some ([v], r')
               else None))"
| "parse_members 0 s = None"
| "parse_members (Suc n) s =
     (case skip_ws s of
        [] \<Rightarrow> None
      | q # r \<Rightarrow>
          if q \<noteq> DQUOTE then None
          else
            (case parse_str r of
               None \<Rightarrow> None
             | Some (k, r1) \<Rightarrow>
                 (case skip_ws r1 of
                    [] \<Rightarrow> None
                  | col # r2 \<Rightarrow>
                      if col \<noteq> CHR '':'' then None
                      else
                        (case parse_value n r2 of
                           None \<Rightarrow> None
                         | Some (v, r3) \<Rightarrow>
                             (case skip_ws r3 of
                                [] \<Rightarrow> None
                              | d # r4 \<Rightarrow>
                                  if d = CHR '','' then cons_fst (k, v) (parse_members n r4)
                                  else if d = CHR ''}'' then Some ([(k, v)], r4)
                                  else None)))))"

definition loads :: "string \<Rightarrow> json option" where
  "loads s =
     (case parse_value (Suc (length s)) s of
        None \<Rightarrow> None
      | Some (v, r) \<Rightarrow> if skip_ws r = [] then Some v else None)"

text \<open>
  \<^verbatim>\<open>repr\<close> of a byte string: single quotes, unless the string holds a single quote and
  no double quote.
\<close>

definition repr_str :: "string \<Rightarrow> string" where
  "repr_str s =
     (let q = (if CHR 0x27 \<in> set s \<and> DQUOTE \<notin> set s then DQUOTE else CHR 0x27)
      in [q] @
         concat (map (\<lambda>c.
           if c = q \<or> c = BACKSLASH then [BACKSLASH, c]
           else if c = CHR 0x09 then [BACKSLASH, CHR ''t'']
           else if c = CHR 0x0A then [BACKSLASH, CHR ''n'']
           else if c = CHR 0x0D then [BACKSLASH, CHR ''r'']
           else if (of_char c :: nat) < 0x20 \<or> (of_char c :: nat) \<ge> 0x7F
           then [BACKSLASH, CHR ''x'', hex_digit ((of_char c :: nat) div 16),
                 hex_digit ((of_char c :: nat) mod 16)]
           else [c]) s) @ [q])"

text \<open>\<^verbatim>\<open>repr\<close> of a decoded value, integers as on a 64-bit build.\<close>

fun py_repr :: "json \<Rightarrow> string" where
  "py_repr JNull = ''None''"
| "py_repr (JBool b) = (if b then ''True'' else ''False'')"
| "py_repr (JInt i) = dec_int i @ (if i < - (2 ^ 63) \<or> 2 ^ 63 \<le> i then ''L'' else [])"
| "py_repr (JStr s) = repr_str s"
| "py_repr (JList xs) = ''['' @ join '', '' (map py_repr xs) @ '']''"
| "py_repr (JObj kvs) =
     ''{'' @ join '', '' (map (\<lambda>kv. repr_str (fst kv) @ '': '' @ py_repr (snd kv)) kvs) @ ''}''"

definition str_of :: "json \<Rightarrow> string" where
  "str_of v = (case v of JStr s \<Rightarrow> s | JInt i \<Rightarrow> dec_int i | _ \<Rightarrow> py_repr v)"

definition ascii_runtime :: py_runtime where
  "ascii_runtime = \<lparr>json_dumps = dumps, json_loads_byteified = loads, py_str = str_of\<rparr>"

section \<open>Sample values\<close>

text \<open>
  A request for \<^verbatim>\<open>list_endpoints\<close> and one for \<^verbatim>\<open>info\<close>, each as
  \<^verbatim>\<open>WebRequest.__init__\<close> builds it and as the dict it is built from, the first request
  written with \<^verbatim>\<open>method\<close> and \<^verbatim>\<open>params\<close>, a printer and a fresh connection.
\<close>

definition request0 :: web_request where
  "request0 =
     \<lparr>client_conn = 7, id_req = JInt 1, path = JStr ''list_endpoints'', args = JObj [],
      response = JNull\<rparr>"

definition base_request0 :: json where
  "base_request0 =
     JObj [(''id'', JInt 1), (''path'', JStr ''list_endpoints''), (''args'', JObj [])]"

definition request1 :: web_request where
  "request1 =
     \<lparr>client_conn = 7, id_req = JInt 2, path = JStr ''info'', args = JObj [],
      response = JNull\<rparr>"

definition base_request1 :: json where
  "base_request1 = JObj [(''id'', JInt 2), (''path'', JStr ''info''), (''args'', JObj [])]"

definition method_request0 :: json where
  "method_request0 =
     JObj [(''id'', JInt 1), (''method'', JStr ''list_endpoints''), (''params'', JObj [])]"

definition printer0 :: printer where
  "printer0 =
     \<lparr>shutdown_calls = [], state_message = ''Printer is ready'', state = ''ready'',
      start_args = [], hostname = ''host'', klipper_path = ''/klipper'',
      python_path = ''/usr/bin/python''\<rparr>"

definition conn0 :: client_connection where
  "conn0 = client_connection_init 7 3"

text \<open>A request to subscribe to one field of one object.\<close>

definition subscribe_request0 :: web_request where
  "subscribe_request0 = request0\<lparr>args := JObj [(''toolhead'', JList [JStr ''position''])]\<rparr>"

text \<open>
  A status handler after \<^verbatim>\<open>klippy:ready\<close>, with two objects that have a status (and
  one that has none) in the printer.
\<close>

definition status_handler0 :: "'v status_handler_state" where
  "status_handler0 =
     handle_ready
       [(''toolhead'', Some [''position'', ''status'', ''homed_axes'']),
        (''gcode'', None),
        (''extruder'', Some [''temperature'', ''target''])]
       status_handler_init"


section \<open>Frames\<close>

lemma str_split_nonempty: "str_split sep s \<noteq> []"
  by (induction s) (auto split: list.splits)

lemma str_split_no_sep: "sep \<notin> set s \<Longrightarrow> str_split sep s = [s]"
  by (induction s) auto

lemma str_split_append_sep:
  "sep \<notin> set a \<Longrightarrow> str_split sep (a @ sep # b) = a # str_split sep b"
  by (induction a) auto

lemma str_split_append:
  "str_split sep (a @ b) =
     butlast (str_split sep a) @
     (last (str_split sep a) @ hd (str_split sep b)) # tl (str_split sep b)"
proof (induction a)
  case Nil
  then show ?case using str_split_nonempty [of sep b] by (cases "str_split sep b") auto
next
  case (Cons c a)
  show ?case
  proof (cases "c = sep")
    case True
    then show ?thesis using Cons str_split_nonempty [of sep a] by simp
  next
    case False
    obtain r rs where r: "str_split sep a = r # rs"
      using str_split_nonempty [of sep a] by (cases "str_split sep a") auto
    show ?thesis
    proof (cases rs)
      case Nil
      then show ?thesis using False Cons r by simp
    next
      case (Cons r' rs')
      then show ?thesis using False Cons.IH r by simp
    qed
  qed
qed

lemma last_str_split_no_sep: "sep \<notin> set (last (str_split sep s))"
proof (induction s)
  case Nil
  then show ?case by simp
next
  case (Cons c s)
  then show ?case
    using str_split_nonempty [of sep s]
    by (cases "str_split sep s") (auto split: if_splits)
qed

lemma take_frames_eq:
  assumes "ETX \<notin> set p"
  shows "take_frames p d = (butlast (str_split ETX (p @ d)), last (str_split ETX (p @ d)))"
proof -
  have "str_split ETX (p @ d) = (p @ hd (str_split ETX d)) # tl (str_split ETX d)"
    using str_split_append [of ETX p d] str_split_no_sep [OF assms] by simp
  then show ?thesis by (simp add: take_frames_def Let_def)
qed

lemma str_split_frames:
  assumes "\<forall>f \<in> set fs. ETX \<notin> set f" and "ETX \<notin> set rest"
  shows "str_split ETX (concat (map (\<lambda>f. f @ [ETX]) fs) @ rest) = fs @ [rest]"
  using assms
proof (induction fs)
  case Nil
  then show ?case by (simp add: str_split_no_sep)
next
  case (Cons f fs)
  then show ?case using str_split_append_sep [of ETX f] by simp
qed


lemma str_split_append_last:
  "str_split sep (a @ b) = butlast (str_split sep a) @ str_split sep (last (str_split sep a) @ b)"
proof -
  have "str_split sep (last (str_split sep a) @ b) =
          (last (str_split sep a) @ hd (str_split sep b)) # tl (str_split sep b)"
    using str_split_append [of sep "last (str_split sep a)" b]
      str_split_no_sep [OF last_str_split_no_sep [of sep a]]
    by simp
  then show ?thesis using str_split_append [of sep a b] by simp
qed

lemma map_filter_app:
  "List.map_filter f (xs @ ys) = List.map_filter f xs @ List.map_filter f ys"
  by (simp add: List.map_filter_def)

lemma process_received_data:
  assumes "d \<noteq> []" and "ETX \<notin> set (partial_data c)"
  shows "process_received rt (Recv d) c =
           c\<lparr>partial_data := last (str_split ETX (partial_data c @ d)),
             callbacks := callbacks c @
               map ProcessRequest
                 (List.map_filter (decode_request rt (uid c))
                    (butlast (str_split ETX (partial_data c @ d))))\<rparr>"
  using assms by (simp add: process_received_def take_frames_eq)

lemma feed_chunks:
  assumes "[] \<notin> set chunks" and "ETX \<notin> set (partial_data c)"
  shows "fold (\<lambda>d. process_received rt (Recv d)) chunks c =
           c\<lparr>partial_data := last (str_split ETX (partial_data c @ concat chunks)),
             callbacks := callbacks c @
               map ProcessRequest
                 (List.map_filter (decode_request rt (uid c))
                    (butlast (str_split ETX (partial_data c @ concat chunks))))\<rparr>"
  using assms
proof (induction chunks arbitrary: c)
  case Nil
  then show ?case by (simp add: str_split_no_sep map_filter_simps)
next
  case (Cons d ds)
  let ?p = "partial_data c"
  let ?c' = "process_received rt (Recv d) c"
  have d: "d \<noteq> []" and ds: "[] \<notin> set ds"
    using Cons.prems(1) by auto
  have c': "?c' = c\<lparr>partial_data := last (str_split ETX (?p @ d)),
             callbacks := callbacks c @
               map ProcessRequest
                 (List.map_filter (decode_request rt (uid c)) (butlast (str_split ETX (?p @ d))))\<rparr>"
    using process_received_data [OF d Cons.prems(2)] .
  have p': "ETX \<notin> set (partial_data ?c')"
    by (simp add: c' last_str_split_no_sep)
  have split: "str_split ETX (?p @ concat (d # ds)) =
                 butlast (str_split ETX (?p @ d)) @
                 str_split ETX (last (str_split ETX (?p @ d)) @ concat ds)"
    using str_split_append_last [of ETX "?p @ d" "concat ds"] by simp
  have ne: "str_split ETX (last (str_split ETX (?p @ d)) @ concat ds) \<noteq> []"
    by (rule str_split_nonempty)
  have "fold (\<lambda>d. process_received rt (Recv d)) (d # ds) c =
          fold (\<lambda>d. process_received rt (Recv d)) ds ?c'"
    by simp
  also have "\<dots> = ?c'\<lparr>partial_data := last (str_split ETX (partial_data ?c' @ concat ds)),
             callbacks := callbacks ?c' @
               map ProcessRequest
                 (List.map_filter (decode_request rt (uid ?c'))
                    (butlast (str_split ETX (partial_data ?c' @ concat ds))))\<rparr>"
    by (rule Cons.IH [OF ds p'])
  also have "\<dots> = c\<lparr>partial_data := last (str_split ETX (?p @ concat (d # ds))),
             callbacks := callbacks c @
               map ProcessRequest
                 (List.map_filter (decode_request rt (uid c))
                    (butlast (str_split ETX (?p @ concat (d # ds)))))\<rparr>"
    unfolding split using ne
    by (simp add: c' butlast_append map_filter_app)
  finally show ?case .
qed

section \<open>Requests and their one response\<close>

lemma finish_result:
  "snd (finish wr) =
     JObj [(''request_id'', id_req wr),
           (''response'', if response wr = JNull then JStr ''ok'' else response wr)]"
  by (simp add: finish_def Let_def)

lemma send_twice_raises:
  assumes "data \<noteq> JNull" and "send data wr = Inr wr'"
  shows "send data' wr' = Inl (WebRequestError ''Multiple calls to send not allowed'')"
  using assms by (auto simp: send_def split: if_splits)

lemma send_stores_first_value:
  "response wr = JNull \<Longrightarrow> send data wr = Inr (wr\<lparr>response := data\<rparr>)"
  "response wr \<noteq> JNull \<Longrightarrow>
     send data wr = Inl (WebRequestError ''Multiple calls to send not allowed'')"
  by (simp_all add: send_def)

lemma send_after_set_error_raises:
  "send data (set_error e wr) = Inl (WebRequestError ''Multiple calls to send not allowed'')"
  by (simp add: send_def set_error_def to_dict_def)

text \<open>
  C6. \<^verbatim>\<open>finish\<close> answers with one response value, and a second \<^verbatim>\<open>send\<close> raises when the
  first sent a value other than \<^verbatim>\<open>None\<close> (the lemmas above). For a handler that sends
  \<^verbatim>\<open>None\<close> the code departs from the claim: \<^verbatim>\<open>send(None)\<close> leaves the request as it was, a
  second \<^verbatim>\<open>send\<close> is accepted and its value is the one kept, and \<^verbatim>\<open>finish\<close> after
  \<^verbatim>\<open>send(None)\<close> alone answers \<^verbatim>\<open>"ok"\<close>, which the comment in \<^verbatim>\<open>finish\<close> reserves for a
  request on which \<^verbatim>\<open>send\<close> was never executed.
\<close>

theorem send_none_is_not_counted:
  "send JNull request0 = Inr request0 \<and>
   send (JStr ''second'') request0 = Inr (request0\<lparr>response := JStr ''second''\<rparr>) \<and>
   snd (finish request0) = JObj [(''request_id'', JInt 1), (''response'', JStr ''ok'')]"
  by (simp add: send_def finish_def request0_def)

section \<open>Dispatch\<close>

lemma conn_send_buffer:
  "send_buffer (conn_send rt data c) = send_buffer c @ json_dumps rt data @ [ETX]"
  by (simp add: conn_send_def Let_def)

lemma process_request_buffer:
  "send_buffer (fst (process_request rt wh wr (c, pr))) =
     send_buffer c @
     json_dumps rt (JObj [(''method'', JStr ''response''),
                          (''params'', snd (finish (fst (run_request rt wh wr pr))))]) @ [ETX]"
  by (simp add: process_request_def conn_send_buffer split: prod.splits)



lemma run_request_returned:
  assumes "dispatch rt wh wr pr = (None, wr', pr')"
  shows "run_request rt wh wr pr = (wr', pr')"
  using assms by (simp add: run_request_def)







lemma call_endpoint_id:
  assumes "\<And>f w q. ep = Callback f \<Longrightarrow> id_req (fst (snd (f w q))) = id_req w"
  shows "id_req (fst (snd (call_endpoint wh ep wr pr))) = id_req wr"
  using assms
  by (cases ep)
    (auto simp: call_endpoint_def handle_list_endpoints_def handle_info_request_def
      handle_estop_request_def send_and_return_def send_def split: sum.splits if_splits)

lemma get_callback_registered:
  assumes "get_callback rt wh p = Inr ep"
  shows "\<exists>s. (s, ep) \<in> set (endpoints wh)"
  using assms
  by (auto simp: get_callback_def split: json.splits option.splits dest: map_of_SomeD)

lemma dispatch_id:
  assumes "\<And>p f w q. (p, Callback f) \<in> set (endpoints wh) \<Longrightarrow>
             id_req (fst (snd (f w q))) = id_req w"
  shows "id_req (fst (snd (dispatch rt wh wr pr))) = id_req wr"
proof (cases "get_callback rt wh (path wr)")
  case (Inl e)
  then show ?thesis by (simp add: dispatch_def)
next
  case (Inr ep)
  then obtain s where "(s, ep) \<in> set (endpoints wh)"
    using get_callback_registered by blast
  then have "\<And>f w q. ep = Callback f \<Longrightarrow> id_req (fst (snd (f w q))) = id_req w"
    using assms by blast
  then have "id_req (fst (snd (call_endpoint wh ep wr pr))) = id_req wr"
    by (rule call_endpoint_id)
  then show ?thesis
    using Inr by (simp add: dispatch_def)
qed

lemma run_request_id:
  assumes "\<And>p f w q. (p, Callback f) \<in> set (endpoints wh) \<Longrightarrow>
             id_req (fst (snd (f w q))) = id_req w"
  shows "id_req (fst (run_request rt wh wr pr)) = id_req wr"
proof -
  have "id_req (fst (snd (dispatch rt wh wr pr))) = id_req wr"
    by (rule dispatch_id) (use assms in blast)
  then show ?thesis
    by (auto simp: run_request_def set_error_def split: prod.splits option.splits)
qed

text \<open>
  C2 (as amended). The message appended to the connection's buffer for a request is the
  JSON text of \<^verbatim>\<open>{"method": "response", "params": {"request_id": id, "response": r}}\<close>
  followed by the terminator, where \<open>r\<close> is the response of the request after the
  handler ran (\<^verbatim>\<open>"ok"\<close> if it is still \<^verbatim>\<open>None\<close>) and \<open>id\<close> the client's id, provided no
  registered handler assigns the request's id.
\<close>

theorem reply_is_wrapped_in_method_params:
  assumes "\<And>p f w q. (p, Callback f) \<in> set (endpoints wh) \<Longrightarrow>
             id_req (fst (snd (f w q))) = id_req w"
  shows "send_buffer (fst (process_request rt wh wr (c, pr))) =
           send_buffer c @
           json_dumps rt
             (JObj [(''method'', JStr ''response''),
                    (''params'',
                     JObj [(''request_id'', id_req wr),
                           (''response'',
                            if response (fst (run_request rt wh wr pr)) = JNull then JStr ''ok''
                            else response (fst (run_request rt wh wr pr)))])]) @ [ETX]"
proof -
  have "id_req (fst (run_request rt wh wr pr)) = id_req wr"
    by (rule run_request_id) (use assms in blast)
  then show ?thesis
    by (simp add: process_request_buffer finish_result)
qed

lemma run_list_endpoints:
  "run_request ascii_runtime webhooks_init request0 printer0 =
     (request0\<lparr>response :=
        JObj [(''endpoints'',
               JList [JStr ''list_endpoints'', JStr ''info'', JStr ''emergency_stop''])]\<rparr>,
      printer0)"
  by (simp add: run_request_def dispatch_def get_callback_def webhooks_init_def
      call_endpoint_def handle_list_endpoints_def send_and_return_def send_def request0_def)

lemma list_endpoints_envelope_text:
  "dumps (JObj [(''method'', JStr ''response''),
                (''params'',
                 JObj [(''request_id'', JInt 1),
                       (''response'',
                        JObj [(''endpoints'',
                               JList [JStr ''list_endpoints'', JStr ''info'',
                                      JStr ''emergency_stop''])])])]) =
     ''{\"method\": \"response\", \"params\": {\"request_id\": 1, \"response\": {\"endpoints\": [\"list_endpoints\", \"info\", \"emergency_stop\"]}}}''"
  by code_simp

lemma list_endpoints_bare_text:
  "dumps (JObj [(''request_id'', JInt 1),
                (''response'',
                 JObj [(''endpoints'',
                        JList [JStr ''list_endpoints'', JStr ''info'',
                               JStr ''emergency_stop''])])]) =
     ''{\"request_id\": 1, \"response\": {\"endpoints\": [\"list_endpoints\", \"info\", \"emergency_stop\"]}}''"
  by code_simp

theorem reply_is_wrapped_in_method_params_witness:
  "send_buffer (fst (process_request ascii_runtime webhooks_init request0 (conn0, printer0))) =
     ''{\"method\": \"response\", \"params\": {\"request_id\": 1, \"response\": {\"endpoints\": [\"list_endpoints\", \"info\", \"emergency_stop\"]}}}'' @ [ETX]"
proof -
  have "send_buffer (fst (process_request ascii_runtime webhooks_init request0 (conn0, printer0))) =
           send_buffer conn0 @
           json_dumps ascii_runtime
             (JObj [(''method'', JStr ''response''),
                    (''params'',
                     JObj [(''request_id'', id_req request0),
                           (''response'',
                            if response (fst (run_request ascii_runtime webhooks_init request0 printer0)) = JNull
                            then JStr ''ok''
                            else response (fst (run_request ascii_runtime webhooks_init request0 printer0)))])]) @ [ETX]"
    by (rule reply_is_wrapped_in_method_params) (simp add: webhooks_init_def)
  then have "send_buffer (fst (process_request ascii_runtime webhooks_init request0 (conn0, printer0))) =
          dumps (JObj [(''method'', JStr ''response''),
                    (''params'',
                     JObj [(''request_id'', JInt 1),
                           (''response'',
                            JObj [(''endpoints'',
                              JList [JStr ''list_endpoints'', JStr ''info'',
                                     JStr ''emergency_stop''])])])]) @ [ETX]"
    unfolding run_list_endpoints
    by (simp add: conn0_def client_connection_init_def ascii_runtime_def request0_def
        del: dumps.simps)
  then show ?thesis
    by (simp only: list_endpoints_envelope_text)
qed

text \<open>
  C2 (as stated) fails: for the request \<^verbatim>\<open>{"id": 1, "path": "list_endpoints", "args": {}}\<close>
  the bytes put on the connection's buffer are the text of the dict with the keys
  \<^verbatim>\<open>method\<close> and \<^verbatim>\<open>params\<close>, not the text of \<^verbatim>\<open>{"request_id": 1, "response": ...}\<close>.
\<close>

theorem reply_is_not_the_bare_dict:
  "send_buffer (fst (process_request ascii_runtime webhooks_init request0 (conn0, printer0))) =
     ''{\"method\": \"response\", \"params\": {\"request_id\": 1, \"response\": {\"endpoints\": [\"list_endpoints\", \"info\", \"emergency_stop\"]}}}'' @ [ETX] \<and>
   send_buffer (fst (process_request ascii_runtime webhooks_init request0 (conn0, printer0))) \<noteq>
     json_dumps ascii_runtime
       (JObj [(''request_id'', JInt 1),
              (''response'',
               JObj [(''endpoints'',
                      JList [JStr ''list_endpoints'', JStr ''info'', JStr ''emergency_stop''])])]) @
     [ETX]"
proof -
  have "send_buffer (fst (process_request ascii_runtime webhooks_init request0 (conn0, printer0))) =
          dumps (JObj [(''method'', JStr ''response''),
                    (''params'',
                     JObj [(''request_id'', JInt 1),
                           (''response'',
                            JObj [(''endpoints'',
                              JList [JStr ''list_endpoints'', JStr ''info'',
                                     JStr ''emergency_stop''])])])]) @ [ETX]"
    unfolding process_request_buffer run_list_endpoints
    by (simp add: finish_result conn0_def client_connection_init_def ascii_runtime_def
        request0_def del: dumps.simps)
  then have w: "send_buffer (fst (process_request ascii_runtime webhooks_init request0 (conn0, printer0))) =
     ''{\"method\": \"response\", \"params\": {\"request_id\": 1, \"response\": {\"endpoints\": [\"list_endpoints\", \"info\", \"emergency_stop\"]}}}'' @ [ETX]"
    by (simp only: list_endpoints_envelope_text)
  have "json_dumps ascii_runtime
       (JObj [(''request_id'', JInt 1),
              (''response'',
               JObj [(''endpoints'',
                      JList [JStr ''list_endpoints'', JStr ''info'', JStr ''emergency_stop''])])]) =
     ''{\"request_id\": 1, \"response\": {\"endpoints\": [\"list_endpoints\", \"info\", \"emergency_stop\"]}}''"
    unfolding ascii_runtime_def by (simp only: py_runtime.simps list_endpoints_bare_text)
  then show ?thesis
    unfolding w by simp
qed

section \<open>Decoding requests\<close>

lemma take_frames_one:
  assumes "ETX \<notin> set req"
  shows "take_frames [] (req @ [ETX]) = ([req], [])"
  using str_split_append_sep [OF assms, of "[]"]
  by (simp add: take_frames_def)

lemma process_received_one:
  assumes "ETX \<notin> set req" and "partial_data c = []"
  shows "process_received rt (Recv (req @ [ETX])) c =
           c\<lparr>partial_data := [],
             callbacks := callbacks c @
               (case decode_request rt (uid c) req of
                  None \<Rightarrow> [] | Some wr \<Rightarrow> [ProcessRequest wr])\<rparr>"
  using assms
  by (simp add: process_received_def take_frames_one split: option.splits)

lemma web_request_init_dict:
  "web_request_init cc (JObj kvs) =
     (case (map_of kvs ''id'', map_of kvs ''path'', map_of kvs ''args'') of
        (Some i, Some p, Some a) \<Rightarrow>
          Inr \<lparr>client_conn = cc, id_req = i, path = p, args = a, response = JNull\<rparr>
      | (None, _, _) \<Rightarrow> Inl (OtherException ''id'')
      | (Some i, None, _) \<Rightarrow> Inl (OtherException ''path'')
      | (Some i, Some p, None) \<Rightarrow> Inl (OtherException ''args''))"
  by (simp add: web_request_init_def split: option.splits)

text \<open>
  C3 (as amended). A decoded request dict is turned into a request exactly when it has
  the keys \<^verbatim>\<open>id\<close>, \<^verbatim>\<open>path\<close> and \<^verbatim>\<open>args\<close>, and the request is built from the values under
  these three keys alone. A dict without \<^verbatim>\<open>path\<close> or without \<^verbatim>\<open>args\<close>, whatever it holds
  under \<^verbatim>\<open>method\<close> and \<^verbatim>\<open>params\<close>, is skipped: nothing is registered for it, so it is
  neither routed nor answered, and the connection goes on.
\<close>

theorem request_keys_are_id_path_args:
  assumes "json_loads_byteified rt req = Some (JObj kvs)"
    and "ETX \<notin> set req" and "partial_data c = []"
  shows "decode_request rt (uid c) req =
           (case (map_of kvs ''id'', map_of kvs ''path'', map_of kvs ''args'') of
              (Some i, Some p, Some a) \<Rightarrow>
                Some \<lparr>client_conn = uid c, id_req = i, path = p, args = a, response = JNull\<rparr>
            | _ \<Rightarrow> None) \<and>
         (map_of kvs ''path'' = None \<or> map_of kvs ''args'' = None \<longrightarrow>
            process_received rt (Recv (req @ [ETX])) c = c) \<and>
         (\<forall>i p a. map_of kvs ''id'' = Some i \<and> map_of kvs ''path'' = Some p \<and>
                  map_of kvs ''args'' = Some a \<longrightarrow>
            process_received rt (Recv (req @ [ETX])) c =
              c\<lparr>callbacks := callbacks c @
                   [ProcessRequest \<lparr>client_conn = uid c, id_req = i, path = p, args = a,
                                    response = JNull\<rparr>]\<rparr>)"
proof -
  have d: "decode_request rt (uid c) req =
           (case (map_of kvs ''id'', map_of kvs ''path'', map_of kvs ''args'') of
              (Some i, Some p, Some a) \<Rightarrow>
                Some \<lparr>client_conn = uid c, id_req = i, path = p, args = a, response = JNull\<rparr>
            | _ \<Rightarrow> None)"
    using assms(1) by (simp add: decode_request_def web_request_init_dict split: option.splits)
  have p: "process_received rt (Recv (req @ [ETX])) c =
           c\<lparr>partial_data := [],
             callbacks := callbacks c @
               (case decode_request rt (uid c) req of
                  None \<Rightarrow> [] | Some wr \<Rightarrow> [ProcessRequest wr])\<rparr>"
    by (rule process_received_one [OF assms(2,3)])
  show ?thesis
    unfolding p d using assms(3) by (auto split: option.splits)
qed

lemma loads_base_request0: "loads (dumps base_request0) = Some base_request0"
  unfolding base_request0_def by code_simp

lemma loads_method_request0: "loads (dumps method_request0) = Some method_request0"
  unfolding method_request0_def by code_simp

lemma dumps_base_request0:
  "dumps base_request0 = ''{\"id\": 1, \"path\": \"list_endpoints\", \"args\": {}}''"
  unfolding base_request0_def by code_simp

lemma dumps_method_request0:
  "dumps method_request0 = ''{\"id\": 1, \"method\": \"list_endpoints\", \"params\": {}}''"
  unfolding method_request0_def by code_simp

lemma no_etx_base_request0: "ETX \<notin> set (dumps base_request0)"
  unfolding dumps_base_request0 by (simp add: ETX_def)

lemma no_etx_method_request0: "ETX \<notin> set (dumps method_request0)"
  unfolding dumps_method_request0 by (simp add: ETX_def)

lemma decode_base_request0:
  "decode_request ascii_runtime 7 (dumps base_request0) = Some request0"
  by (simp add: decode_request_def ascii_runtime_def loads_base_request0 del: dumps.simps)
    (simp add: base_request0_def request0_def web_request_init_def)

lemma decode_method_request0:
  "decode_request ascii_runtime 7 (dumps method_request0) = None"
  by (simp add: decode_request_def ascii_runtime_def loads_method_request0 del: dumps.simps)
    (simp add: method_request0_def web_request_init_def)

theorem request_keys_are_id_path_args_witness:
  "json_loads_byteified ascii_runtime (dumps method_request0) = Some method_request0 \<and>
   ETX \<notin> set (dumps method_request0) \<and> partial_data conn0 = [] \<and>
   decode_request ascii_runtime (uid conn0) (dumps method_request0) = None \<and>
   process_received ascii_runtime (Recv (dumps method_request0 @ [ETX])) conn0 = conn0 \<and>
   json_loads_byteified ascii_runtime (dumps base_request0) = Some base_request0 \<and>
   ETX \<notin> set (dumps base_request0) \<and>
   process_received ascii_runtime (Recv (dumps base_request0 @ [ETX])) conn0 =
     conn0\<lparr>callbacks := [ProcessRequest request0]\<rparr>"
proof -
  have l1: "json_loads_byteified ascii_runtime (dumps method_request0) =
              Some (JObj [(''id'', JInt 1), (''method'', JStr ''list_endpoints''),
                          (''params'', JObj [])])"
    using loads_method_request0 by (simp add: ascii_runtime_def method_request0_def del: dumps.simps)
  have l2: "json_loads_byteified ascii_runtime (dumps base_request0) =
              Some (JObj [(''id'', JInt 1), (''path'', JStr ''list_endpoints''),
                          (''args'', JObj [])])"
    using loads_base_request0 by (simp add: ascii_runtime_def base_request0_def del: dumps.simps)
  have p: "partial_data conn0 = []"
    by (simp add: conn0_def client_connection_init_def)
  note m = request_keys_are_id_path_args [OF l1 no_etx_method_request0 p]
  note b = request_keys_are_id_path_args [OF l2 no_etx_base_request0 p]
  have u: "uid conn0 = 7" "callbacks conn0 = []"
    by (simp_all add: conn0_def client_connection_init_def)
  show ?thesis
    using m b l1 l2 p no_etx_method_request0 no_etx_base_request0 u
    by (simp add: request0_def method_request0_def base_request0_def del: dumps.simps)
qed

text \<open>
  C3 (as stated) fails: the frame
  \<^verbatim>\<open>{"id": 1, "method": "list_endpoints", "params": {}}\<close> is decoded and then dropped,
  nothing is registered for it; the same request written with \<^verbatim>\<open>path\<close> and \<^verbatim>\<open>args\<close> is
  registered for dispatch.
\<close>

theorem method_params_request_is_dropped:
  "dumps method_request0 = ''{\"id\": 1, \"method\": \"list_endpoints\", \"params\": {}}'' \<and>
   callbacks (process_received ascii_runtime (Recv (dumps method_request0 @ [ETX])) conn0) = [] \<and>
   dumps base_request0 = ''{\"id\": 1, \"path\": \"list_endpoints\", \"args\": {}}'' \<and>
   callbacks (process_received ascii_runtime (Recv (dumps base_request0 @ [ETX])) conn0) =
     [ProcessRequest request0]"
proof -
  have p: "partial_data conn0 = []" and u: "uid conn0 = 7" "callbacks conn0 = []"
    by (simp_all add: conn0_def client_connection_init_def)
  have m: "callbacks (process_received ascii_runtime (Recv (dumps method_request0 @ [ETX])) conn0) = []"
    unfolding process_received_one [OF no_etx_method_request0 p] u
    by (simp add: decode_method_request0 u del: dumps.simps)
  have b: "callbacks (process_received ascii_runtime (Recv (dumps base_request0 @ [ETX])) conn0) =
             [ProcessRequest request0]"
    unfolding process_received_one [OF no_etx_base_request0 p] u
    by (simp add: decode_base_request0 u del: dumps.simps)
  show ?thesis
    using m b dumps_method_request0 dumps_base_request0 by blast
qed

section \<open>Subscription requests without arguments\<close>

text \<open>
  C10. A subscription request whose arguments are the empty dict raises
  \<^verbatim>\<open>WebRequestError("Invalid argument")\<close>, a \<^verbatim>\<open>CommandError\<close>, and the handler's state
  (subscriptions, clients, timer, flags) is what it was.
\<close>

theorem empty_subscription_request_is_rejected:
  assumes "args wr = JObj []"
  shows "handle_subscription_request wr sh = (Some (WebRequestError ''Invalid argument''), sh) \<and>
         is_command_error (WebRequestError ''Invalid argument'')"
  using assms by (simp add: handle_subscription_request_def)

theorem empty_subscription_request_is_rejected_witness:
  "args request0 = JObj [] \<and>
   handle_subscription_request request0 status_handler_init =
     (Some (WebRequestError ''Invalid argument''), status_handler_init)"
  using empty_subscription_request_is_rejected [of request0 status_handler_init]
  by (simp add: request0_def)

section \<open>The frame codec\<close>

lemma decode_encoded:
  assumes "\<forall>v \<in> set vs. json_loads_byteified rt (json_dumps rt v) = Some v"
  shows "List.map_filter (decode_request rt u) (map (json_dumps rt) vs) =
           List.map_filter
             (\<lambda>v. case web_request_init u v of Inl e \<Rightarrow> None | Inr wr \<Rightarrow> Some wr) vs"
  using assms by (induction vs) (auto simp: decode_request_def split: sum.splits)

lemma process_received_whole:
  assumes "chunks \<noteq> []" and "[] \<notin> set chunks" and "ETX \<notin> set (partial_data c)"
  shows "fold (\<lambda>d. process_received rt (Recv d)) chunks c =
           process_received rt (Recv (concat chunks)) c"
proof -
  have "concat chunks \<noteq> []"
    using assms(1,2) by (cases chunks) auto
  then show ?thesis
    using feed_chunks [OF assms(2,3)] process_received_data [OF _ assms(3)] by simp
qed

text \<open>
  C7. Take a runtime and values \<open>vs\<close> that \<^verbatim>\<open>json.loads\<close> reads back from the text
  \<^verbatim>\<open>json.dumps\<close> writes for them, a text without the terminator. Then one encoded value
  (its text and the terminator) is cut into exactly one frame, which decodes to the
  value, with nothing left over. And when the encoded values, followed by an incomplete
  segment \<open>rest\<close>, arrive cut into non-empty chunks in any way, the connection ends with
  \<open>rest\<close> as its partial data and has registered, in order, the requests built from
  \<open>vs\<close>: the same as when everything arrives in one read.
\<close>

theorem frames_round_trip_through_any_chunks:
  assumes "\<forall>v \<in> set vs. json_loads_byteified rt (json_dumps rt v) = Some v \<and>
                         ETX \<notin> set (json_dumps rt v)"
    and "concat chunks = concat (map (\<lambda>v. json_dumps rt v @ [ETX]) vs) @ rest"
    and "[] \<notin> set chunks" and "ETX \<notin> set rest" and "partial_data c = []"
  shows "(\<forall>v \<in> set vs.
            map (json_loads_byteified rt) (fst (take_frames [] (json_dumps rt v @ [ETX]))) =
              [Some v] \<and>
            snd (take_frames [] (json_dumps rt v @ [ETX])) = []) \<and>
         fold (\<lambda>d. process_received rt (Recv d)) chunks c =
           c\<lparr>partial_data := rest,
             callbacks := callbacks c @
               map ProcessRequest
                 (List.map_filter
                    (\<lambda>v. case web_request_init (uid c) v of Inl e \<Rightarrow> None | Inr wr \<Rightarrow> Some wr)
                    vs)\<rparr> \<and>
         (chunks \<noteq> [] \<longrightarrow>
            fold (\<lambda>d. process_received rt (Recv d)) chunks c =
              process_received rt (Recv (concat chunks)) c)"
proof (intro conjI ballI impI)
  fix v assume "v \<in> set vs"
  then have v: "json_loads_byteified rt (json_dumps rt v) = Some v" "ETX \<notin> set (json_dumps rt v)"
    using assms(1) by auto
  show "map (json_loads_byteified rt) (fst (take_frames [] (json_dumps rt v @ [ETX]))) = [Some v]"
    by (simp add: take_frames_one [OF v(2)] v(1))
  show "snd (take_frames [] (json_dumps rt v @ [ETX])) = []"
    by (simp add: take_frames_one [OF v(2)])
next
  have p: "ETX \<notin> set (partial_data c)"
    using assms(5) by simp
  have "str_split ETX (concat chunks) = map (json_dumps rt) vs @ [rest]"
    unfolding assms(2)
    using str_split_frames [of "map (json_dumps rt) vs" rest] assms(1,4)
    by (simp add: comp_def)
  then show "fold (\<lambda>d. process_received rt (Recv d)) chunks c =
           c\<lparr>partial_data := rest,
             callbacks := callbacks c @
               map ProcessRequest
                 (List.map_filter
                    (\<lambda>v. case web_request_init (uid c) v of Inl e \<Rightarrow> None | Inr wr \<Rightarrow> Some wr)
                    vs)\<rparr>"
    using feed_chunks [OF assms(3) p, of rt] assms(1,5)
    by (simp add: decode_encoded)
  show "fold (\<lambda>d. process_received rt (Recv d)) chunks c =
          process_received rt (Recv (concat chunks)) c" if "chunks \<noteq> []"
    by (rule process_received_whole [OF that assms(3) p])
qed

lemma loads_base_request1: "loads (dumps base_request1) = Some base_request1"
  unfolding base_request1_def by code_simp

lemma dumps_base_request1:
  "dumps base_request1 = ''{\"id\": 2, \"path\": \"info\", \"args\": {}}''"
  unfolding base_request1_def by code_simp

lemma no_etx_base_request1: "ETX \<notin> set (dumps base_request1)"
  unfolding dumps_base_request1 by (simp add: ETX_def)

theorem frames_round_trip_through_any_chunks_witness:
  "fold (\<lambda>d. process_received ascii_runtime (Recv d))
     [''{\"id\": 1, \"path\": \"list_e'',
      ''ndpoints\", \"args\": {}}'' @ [ETX] @ ''{\"id\": 2, \"pa'',
      ''th\": \"info\", \"args\": {}}'' @ [ETX] @ ''{\"id\": 3'']
     conn0 =
   conn0\<lparr>partial_data := ''{\"id\": 3'',
         callbacks := [ProcessRequest request0, ProcessRequest request1]\<rparr>"
proof -
  let ?chunks = "[''{\"id\": 1, \"path\": \"list_e'',
      ''ndpoints\", \"args\": {}}'' @ [ETX] @ ''{\"id\": 2, \"pa'',
      ''th\": \"info\", \"args\": {}}'' @ [ETX] @ ''{\"id\": 3'']"
  let ?vs = "[base_request0, base_request1]"
  have rt: "\<forall>v \<in> set ?vs. json_loads_byteified ascii_runtime (json_dumps ascii_runtime v) = Some v \<and>
                         ETX \<notin> set (json_dumps ascii_runtime v)"
    using loads_base_request0 loads_base_request1 no_etx_base_request0 no_etx_base_request1
    by (simp add: ascii_runtime_def del: dumps.simps)
  have cc: "concat ?chunks =
              concat (map (\<lambda>v. json_dumps ascii_runtime v @ [ETX]) ?vs) @ ''{\"id\": 3''"
    by (simp add: ascii_runtime_def dumps_base_request0 dumps_base_request1 del: dumps.simps)
  have ne: "[] \<notin> set ?chunks"
    by simp
  have r: "ETX \<notin> set ''{\"id\": 3''"
    by (simp add: ETX_def)
  have p: "partial_data conn0 = []" and u: "uid conn0 = 7" "callbacks conn0 = []"
    by (simp_all add: conn0_def client_connection_init_def)
  have i: "web_request_init 7 base_request0 = Inr request0"
          "web_request_init 7 base_request1 = Inr request1"
    by (simp_all add: web_request_init_def base_request0_def base_request1_def request0_def
        request1_def)
  from frames_round_trip_through_any_chunks [OF rt cc ne r p]
  have "fold (\<lambda>d. process_received ascii_runtime (Recv d)) ?chunks conn0 =
          conn0\<lparr>partial_data := ''{\"id\": 3'',
            callbacks := callbacks conn0 @
               map ProcessRequest
                 (List.map_filter
                    (\<lambda>v. case web_request_init (uid conn0) v of Inl e \<Rightarrow> None | Inr wr \<Rightarrow> Some wr)
                    ?vs)\<rparr>"
    by blast
  then show ?thesis
    by (simp only: u i list.map sum.case option.case map_filter_simps append_Nil)
qed

section \<open>Subscriptions\<close>

lemma subscribe_item_other_fields:
  "ready (subscribe_item item sh) = ready sh"
  "timer_started (subscribe_item item sh) = timer_started sh"
  "subscription_timer (subscribe_item item sh) = subscription_timer sh"
  "available_objects (subscribe_item item sh) = available_objects sh"
  "clients (subscribe_item item sh) = clients sh"
  by (auto simp: subscribe_item_def split: prod.splits option.splits)

lemma fold_subscribe_item_other_fields:
  "ready (fold subscribe_item new_sub sh) = ready sh"
  "timer_started (fold subscribe_item new_sub sh) = timer_started sh"
  "subscription_timer (fold subscribe_item new_sub sh) = subscription_timer sh"
  "available_objects (fold subscribe_item new_sub sh) = available_objects sh"
  "clients (fold subscribe_item new_sub sh) = clients sh"
  by (induction new_sub arbitrary: sh) (simp_all add: subscribe_item_other_fields)

lemma add_subscripton_subscriptions:
  "subscriptions (add_subscripton new_sub sh) = subscriptions (fold subscribe_item new_sub sh)"
  by (simp add: add_subscripton_def Let_def)

lemma subscribe_item_raw_other_fields:
  assumes "subscribe_item_raw item sh = Inr sh'"
  shows "ready sh' = ready sh \<and> timer_started sh' = timer_started sh \<and>
         subscription_timer sh' = subscription_timer sh \<and>
         available_objects sh' = available_objects sh \<and> clients sh' = clients sh"
  using assms
  by (auto simp: subscribe_item_raw_def split: prod.splits option.splits sum.splits)

lemma subscribe_items_raw_other_fields:
  assumes "subscribe_items_raw items sh = (r, sh')"
  shows "ready sh' = ready sh \<and> timer_started sh' = timer_started sh \<and>
         subscription_timer sh' = subscription_timer sh \<and>
         available_objects sh' = available_objects sh \<and> clients sh' = clients sh"
  using assms
proof (induction items arbitrary: sh)
  case Nil
  then show ?case by simp
next
  case (Cons item items)
  show ?case
  proof (cases "subscribe_item_raw item sh")
    case (Inl e)
    then show ?thesis using Cons.prems by simp
  next
    case (Inr s1)
    then have "subscribe_items_raw items s1 = (r, sh')"
      using Cons.prems by simp
    then show ?thesis
      using Cons.IH [of s1] subscribe_item_raw_other_fields [OF Inr] by simp
  qed
qed

lemma add_subscripton_raw_timer:
  assumes "add_subscripton_raw new_sub sh = (r, sh')"
  shows "ready sh' = ready sh \<and> clients sh' = clients sh \<and>
         available_objects sh' = available_objects sh \<and>
         (r = None \<and> truthy new_sub \<and> \<not> timer_started sh \<longrightarrow>
            timer_started sh' \<and> subscription_timer sh' = NOW) \<and>
         (r \<noteq> None \<or> \<not> truthy new_sub \<or> timer_started sh \<longrightarrow>
            timer_started sh' = timer_started sh \<and>
            subscription_timer sh' = subscription_timer sh)"
proof (cases "truthy new_sub")
  case False
  then show ?thesis using assms by (auto simp: add_subscripton_raw_def)
next
  case True
  show ?thesis
  proof (cases new_sub)
    case (JObj kvs)
    obtain r1 s1 where l: "subscribe_items_raw kvs sh = (r1, s1)"
      by (cases "subscribe_items_raw kvs sh")
    note f = subscribe_items_raw_other_fields [OF l]
    show ?thesis
      using assms True JObj l f
      by (cases r1) (auto simp: add_subscripton_raw_def)
  qed (use assms True in \<open>auto simp: add_subscripton_raw_def\<close>)
qed

text \<open>
  C4 (as amended). A restart request stops the timer and marks the handler not ready,
  and leaves the \<^verbatim>\<open>timer_started\<close> flag as it was. If that flag was not set, the next
  subscription request that returns without an exception leaves the timer set to fire
  at once, and the flag set.
\<close>

theorem restart_stops_timer_and_unstarted_timer_is_armed:
  "subscription_timer (handle_restart sh) = NEVER \<and>
   \<not> ready (handle_restart sh) \<and>
   timer_started (handle_restart sh) = timer_started sh \<and>
   (\<not> timer_started sh \<and>
    handle_subscription_request wr (handle_restart sh) = (None, sh') \<longrightarrow>
      subscription_timer sh' = NOW \<and> timer_started sh')"
proof (intro conjI impI)
  show "subscription_timer (handle_restart sh) = NEVER" "\<not> ready (handle_restart sh)"
       "timer_started (handle_restart sh) = timer_started sh"
    by (simp_all add: handle_restart_def)
next
  assume a: "\<not> timer_started sh \<and>
    handle_subscription_request wr (handle_restart sh) = (None, sh')"
  let ?s = "handle_restart sh"
  have n: "\<not> timer_started ?s"
    using a by (simp add: handle_restart_def)
  have t: "truthy (args wr)"
    using a by (auto simp: handle_subscription_request_def split: if_splits)
  obtain r1 s1 where l: "add_subscripton_raw (args wr) ?s = (r1, s1)"
    by (cases "add_subscripton_raw (args wr) ?s")
  have "r1 = None \<and> timer_started sh' = timer_started s1 \<and>
        subscription_timer sh' = subscription_timer s1"
    using a t l
    by (cases "args wr"; cases r1) (auto simp: handle_subscription_request_def Let_def)
  then show "subscription_timer sh' = NOW" "timer_started sh'"
    using add_subscripton_raw_timer [OF l] t n by simp_all
qed


lemma subscribe_request0_first:
  "handle_subscription_request subscribe_request0 status_handler0 =
     (None,
      status_handler0\<lparr>subscriptions := [(''toolhead'', JList [JStr ''position''])],
                        subscription_timer := NOW, timer_started := True,
                        clients := [(7, JObj [])]\<rparr>)"
  by (simp add: handle_subscription_request_def subscribe_request0_def request0_def
      add_subscripton_raw_def subscribe_item_raw_def validate_items_raw_def py_set_def
      merge_items_raw_def status_handler0_def handle_ready_def status_handler_init_def Let_def)

lemma subscribe_request0_after_restart:
  "handle_subscription_request subscribe_request0
     (handle_restart
        (status_handler0\<lparr>subscriptions := [(''toolhead'', JList [JStr ''position''])],
                          subscription_timer := NOW, timer_started := True,
                          clients := [(7, JObj [])]\<rparr>)) =
     (None,
      status_handler0\<lparr>subscriptions := [(''toolhead'', JList [JStr ''position''])],
                        subscription_timer := NEVER, timer_started := True,
                        clients := [(7, JObj [])], ready := False\<rparr>)"
  by (simp add: handle_subscription_request_def subscribe_request0_def request0_def
      add_subscripton_raw_def subscribe_item_raw_def validate_items_raw_def py_set_def
      merge_items_raw_def status_handler0_def handle_ready_def status_handler_init_def Let_def
      handle_restart_def)

theorem restart_stops_timer_and_unstarted_timer_is_armed_witness:
  "\<not> timer_started (status_handler0 :: raw_status_handler) \<and>
   fst (handle_subscription_request subscribe_request0 (handle_restart status_handler0)) = None \<and>
   subscription_timer
     (snd (handle_subscription_request subscribe_request0 (handle_restart status_handler0))) = NOW"
proof -
  have n: "\<not> timer_started (status_handler0 :: raw_status_handler)"
    by (simp add: status_handler0_def handle_ready_def status_handler_init_def)
  have f: "fst (handle_subscription_request subscribe_request0
                  (handle_restart status_handler0)) = None"
    by (simp add: handle_subscription_request_def subscribe_request0_def request0_def
      add_subscripton_raw_def subscribe_item_raw_def validate_items_raw_def py_set_def
      merge_items_raw_def status_handler0_def handle_ready_def status_handler_init_def Let_def
      handle_restart_def)
  then have "handle_subscription_request subscribe_request0 (handle_restart status_handler0) =
      (None, snd (handle_subscription_request subscribe_request0 (handle_restart status_handler0)))"
    by (metis prod.collapse)
  then show ?thesis
    using restart_stops_timer_and_unstarted_timer_is_armed
            [of status_handler0 subscribe_request0
              "snd (handle_subscription_request subscribe_request0 (handle_restart status_handler0))"]
          n f
    by blast
qed

text \<open>
  C4 (as stated) fails: once a subscription has started the timer, a restart request
  stops it, and the next subscription request, which returns without an exception,
  leaves it stopped.
\<close>

theorem started_timer_is_not_rearmed_after_restart:
  "fst (handle_subscription_request subscribe_request0 status_handler0) = None \<and>
   timer_started (snd (handle_subscription_request subscribe_request0 status_handler0)) \<and>
   subscription_timer
     (handle_restart (snd (handle_subscription_request subscribe_request0 status_handler0))) =
     NEVER \<and>
   fst (handle_subscription_request subscribe_request0
          (handle_restart
             (snd (handle_subscription_request subscribe_request0 status_handler0)))) = None \<and>
   subscription_timer
     (snd (handle_subscription_request subscribe_request0
             (handle_restart
                (snd (handle_subscription_request subscribe_request0 status_handler0))))) =
     NEVER"
  unfolding subscribe_request0_first snd_conv fst_conv subscribe_request0_after_restart
  by (simp add: handle_restart_def)

text \<open>
  Requests that do not follow the protocol: a field list with a number in it raises
  \<^verbatim>\<open>TypeError\<close> in \<^verbatim>\<open>join\<close>, and nothing is stored, no timer started and no client
  recorded; a string in the place of a field list is taken as the list of its
  characters, none of which is a field here, and the object is skipped; a number in
  that place raises \<^verbatim>\<open>TypeError\<close> in \<^verbatim>\<open>set\<close>; \<^verbatim>\<open>None\<close> in that place is stored as it is.
\<close>

lemma ill_typed_field_list_raises:
  "handle_subscription_request
     (request0\<lparr>args := JObj [(''toolhead'', JList [JStr ''position'', JInt 5])]\<rparr>)
     status_handler0 =
     (Some (OtherException ''sequence item 0: expected string, int found''), status_handler0)"
  by (simp add: handle_subscription_request_def request0_def
      add_subscripton_raw_def subscribe_item_raw_def validate_items_raw_def py_set_def
      merge_items_raw_def status_handler0_def handle_ready_def status_handler_init_def Let_def
      dec_nat.simps)

lemma string_for_field_list_is_skipped:
  "handle_subscription_request (request0\<lparr>args := JObj [(''toolhead'', JStr ''status'')]\<rparr>)
     status_handler0 =
     (None,
      status_handler0\<lparr>subscription_timer := NOW, timer_started := True,
                        clients := [(7, JObj [])]\<rparr>)"
  by (simp add: handle_subscription_request_def request0_def
      add_subscripton_raw_def subscribe_item_raw_def validate_items_raw_def py_set_def
      merge_items_raw_def status_handler0_def handle_ready_def status_handler_init_def Let_def)

lemma number_for_field_list_raises:
  "handle_subscription_request (request0\<lparr>args := JObj [(''toolhead'', JInt 5)]\<rparr>)
     status_handler0 =
     (Some (OtherException (quoted ''int'' @ '' object is not iterable'')), status_handler0)"
  by (simp add: handle_subscription_request_def request0_def
      add_subscripton_raw_def subscribe_item_raw_def validate_items_raw_def py_set_def
      merge_items_raw_def status_handler0_def handle_ready_def status_handler_init_def Let_def)

lemma null_for_field_list_is_stored:
  "handle_subscription_request (request0\<lparr>args := JObj [(''toolhead'', JNull)]\<rparr>)
     status_handler0 =
     (None,
      status_handler0\<lparr>subscriptions := [(''toolhead'', JNull)],
                        subscription_timer := NOW, timer_started := True,
                        clients := [(7, JObj [])]\<rparr>)"
  by (simp add: handle_subscription_request_def request0_def
      add_subscripton_raw_def subscribe_item_raw_def validate_items_raw_def py_set_def
      merge_items_raw_def status_handler0_def handle_ready_def status_handler_init_def Let_def)

text \<open>
  On a request of lists of field names, and a table of lists of field names, the code
  does what \<open>validate_items\<close>, \<open>merge_items\<close>, \<open>subscribe_item\<close> and \<open>add_subscripton\<close> say:
  it raises nothing, and the table it leaves holds lists of field names again.
\<close>

lemma py_dedup_strings: "py_dedup (map JStr xs) = map JStr (remdups xs)"
proof (induction xs)
  case Nil
  then show ?case by simp
next
  case (Cons x xs)
  have k: "py_key ` set (map JStr xs) = JStr ` set xs"
    by (auto simp: image_iff)
  have m: "map (\<lambda>y. if py_key y = JStr x then JStr x else y) (map JStr ys) = map JStr ys" for ys
    by (induction ys) simp_all
  show ?case
    using Cons.IH k by (auto simp: m)
qed

lemma py_set_strings: "py_set (JList (map JStr xs)) = Inr (map JStr (remdups xs))"
proof -
  have "filter (\<lambda>x. \<not> hashable x) (map JStr xs) = []"
    by (induction xs) simp_all
  then show ?thesis
    by (simp add: py_set_def py_dedup_strings)
qed

lemma join_error_strings: "join_error i (map JStr xs) = None"
  by (induction xs arbitrary: i) simp_all

lemma filter_strings:
  "filter (\<lambda>x. py_key x \<notin> JStr ` set ys) (map JStr xs) = map JStr (filter (\<lambda>x. x \<notin> set ys) xs)"
  by (induction xs) auto

lemma py_key_strings: "py_key ` set (map JStr ys) = JStr ` set ys"
  by (auto simp: image_iff)

lemma validate_items_raw_field_list:
  "validate_items_raw avail (field_list req) =
     Inr (map_option field_list (validate_items avail req))"
proof (cases "req = []")
  case True
  then show ?thesis
    by (simp add: validate_items_raw_def validate_items_def field_list_def)
next
  case False
  let ?items = "map JStr (remdups req)"
  let ?inv = "set_minus req avail"
  have i: "filter (\<lambda>x. py_key x \<notin> JStr ` set avail) ?items = map JStr ?inv"
    by (simp add: filter_strings set_minus_def)
  have k: "filter (\<lambda>x. py_key x \<notin> py_key ` set (map JStr ?inv)) ?items =
           map JStr (set_minus req ?inv)"
    by (simp only: py_key_strings filter_strings) (simp only: set_minus_def)
  have t: "truthy (field_list req)"
    using False by (simp add: field_list_def)
  show ?thesis
  proof (cases "?inv = []")
    case True
    then show ?thesis
      using False t i
      by (simp add: validate_items_raw_def validate_items_def Let_def)
        (simp add: field_list_def py_set_strings i)
  next
    case inv: False
    show ?thesis
      using False t inv
      by (simp add: validate_items_raw_def validate_items_def Let_def)
        (simp add: field_list_def py_set_strings i k join_error_strings del: set_map)
  qed
qed

lemma remdups_append_remdups: "remdups (remdups xs @ ys) = remdups (xs @ ys)"
  by (induction xs) auto

lemma merge_items_raw_field_list:
  "merge_items_raw (map_option field_list existing) (field_list req) =
     Inr (field_list (merge_items existing req))"
proof (cases existing)
  case None
  then show ?thesis by (simp add: merge_items_raw_def merge_items_def)
next
  case (Some ex)
  have r: "remdups (remdups req @ remdups ex) = remdups (req @ ex)"
    by (simp add: remdups_append_remdups remdups_append2)
  have "py_dedup (map JStr (remdups req) @ map JStr (remdups ex)) = map JStr (remdups (req @ ex))"
    using py_dedup_strings [of "remdups req @ remdups ex"] r by simp
  then show ?thesis
    using Some
    by (simp add: merge_items_raw_def merge_items_def set_union_def field_list_def
        py_set_strings)
qed

lemma map_of_field_lists:
  "map_of (map (\<lambda>kv. (fst kv, field_list (snd kv))) al) k = map_option field_list (map_of al k)"
  by (induction al) auto

lemma update_field_lists:
  "AList.update k (field_list v) (map (\<lambda>kv. (fst kv, field_list (snd kv))) al) =
   map (\<lambda>kv. (fst kv, field_list (snd kv))) (AList.update k v al)"
  by (induction al) auto

lemma raw_of_fields:
  "timer_started (raw_of sh) = timer_started sh"
  "subscription_timer (raw_of sh) = subscription_timer sh"
  "ready (raw_of sh) = ready sh"
  "clients (raw_of sh) = clients sh"
  "available_objects (raw_of sh) = available_objects sh"
  by (simp_all add: raw_of_def)

lemma subscribe_item_raw_field_list:
  "subscribe_item_raw (n, field_list fs) (raw_of sh) = Inr (raw_of (subscribe_item (n, fs) sh))"
proof (cases "map_of (available_objects sh) n")
  case None
  then show ?thesis
    by (simp add: subscribe_item_raw_def subscribe_item_def raw_of_fields)
next
  case (Some avail)
  show ?thesis
  proof (cases "validate_items avail fs")
    case None
    then show ?thesis
      using Some
      by (simp add: subscribe_item_raw_def subscribe_item_def validate_items_raw_field_list
          raw_of_fields)
  next
    case v: (Some fs')
    have m: "map_of (subscriptions (raw_of sh)) n = map_option field_list (map_of (subscriptions sh) n)"
      by (simp add: raw_of_def map_of_field_lists)
    show ?thesis
      using Some v
      by (simp add: subscribe_item_raw_def subscribe_item_def validate_items_raw_field_list
          raw_of_fields m merge_items_raw_field_list)
        (simp add: raw_of_def update_field_lists)
  qed
qed

lemma subscribe_items_raw_field_lists:
  "subscribe_items_raw (map (\<lambda>kv. (fst kv, field_list (snd kv))) new_sub) (raw_of sh) =
     (None, raw_of (fold subscribe_item new_sub sh))"
proof (induction new_sub arbitrary: sh)
  case Nil
  then show ?case by simp
next
  case (Cons item new_sub)
  obtain n fs where item: "item = (n, fs)"
    by (cases item)
  show ?case
    using Cons.IH [of "subscribe_item (n, fs) sh"]
    by (simp add: item subscribe_item_raw_field_list)
qed

lemma add_subscripton_raw_field_lists:
  "add_subscripton_raw (field_lists new_sub) (raw_of sh) =
     (None, raw_of (add_subscripton new_sub sh))"
proof (cases "new_sub = []")
  case True
  then show ?thesis
    by (simp add: add_subscripton_raw_def add_subscripton_def field_lists_def)
next
  case False
  then show ?thesis
    by (simp add: add_subscripton_raw_def add_subscripton_def field_lists_def
        subscribe_items_raw_field_lists raw_of_fields Let_def)
      (simp add: raw_of_def)
qed

lemma listed_fields_list_subscription:
  "listed_fields (list_subscription (raw_of sh)) = subscribed_fields sh"
proof (rule ext)
  fix n
  have c: "concat (map (\<lambda>x. case x of JStr s \<Rightarrow> [s] | _ \<Rightarrow> []) (map JStr fs)) = fs" for fs
    by (induction fs) simp_all
  have "map_of (subscriptions (raw_of sh)) n = map_option field_list (map_of (subscriptions sh) n)"
    by (simp add: raw_of_def map_of_field_lists)
  then show "listed_fields (list_subscription (raw_of sh)) n = subscribed_fields sh n"
    by (cases "map_of (subscriptions sh) n")
      (simp_all add: listed_fields_def list_subscription_def subscribed_fields_def
        field_list_def c del: set_concat map_map)
qed

lemma set_set_minus: "set (set_minus xs ys) = set xs - set ys"
  by (auto simp: set_minus_def)

lemma set_set_union: "set (set_union xs ys) = set xs \<union> set ys"
  by (simp add: set_union_def)

lemma set_minus_empty: "set_minus xs ys = [] \<longleftrightarrow> set xs \<subseteq> set ys"
  using set_set_minus [of xs ys] by (metis Diff_eq_empty_iff set_empty)

lemma set_union_empty: "set_union xs ys = [] \<longleftrightarrow> xs = [] \<and> ys = []"
  by (simp add: set_union_def)

lemma validate_items_all_valid:
  assumes "req \<noteq> []" and "set req \<subseteq> set avail"
  shows "validate_items avail req = Some req"
proof -
  have "set_minus req avail = []"
    using assms(2) by (simp only: set_minus_empty)
  then show ?thesis
    using assms(1) by (simp add: validate_items_def)
qed

lemma set_valid_items: "set (set_minus req (set_minus req avail)) = set req \<inter> set avail"
  by (auto simp: set_set_minus)

lemma valid_items_empty:
  "set_minus req (set_minus req avail) = [] \<longleftrightarrow> set req \<inter> set avail = {}"
  using set_valid_items [of req avail] by (metis set_empty)

lemma validate_items_some_invalid:
  assumes "req \<noteq> []" and "\<not> set req \<subseteq> set avail"
  shows "validate_items avail req =
           (if set req \<inter> set avail = {} then None
            else Some (set_minus req (set_minus req avail)))"
proof -
  have "set_minus req avail \<noteq> []"
    using assms(2) by (simp only: set_minus_empty not_False_eq_True)
  then have "validate_items avail req =
            (if set_minus req (set_minus req avail) = [] then None
             else Some (set_minus req (set_minus req avail)))"
    using assms(1) by (simp add: validate_items_def Let_def)
  then show ?thesis
    by (simp only: valid_items_empty)
qed

lemma validate_items_cases:
  "validate_items avail req =
     (if req \<noteq> [] \<and> set req \<inter> set avail = {} then None
      else if set req \<subseteq> set avail then Some req
      else Some (set_minus req (set_minus req avail)))"
proof (cases "req = []")
  case True
  then show ?thesis by (simp add: validate_items_def)
next
  case False
  show ?thesis
  proof (cases "set req \<subseteq> set avail")
    case True
    obtain x where "x \<in> set req"
      using False by (cases req) auto
    then have "x \<in> set req \<inter> set avail"
      using True by blast
    then have n: "\<not> (req \<noteq> [] \<and> set req \<inter> set avail = {})"
      by blast
    show ?thesis
      by (simp only: validate_items_all_valid [OF False True] if_not_P [OF n] if_P [OF True])
  next
    case sub: False
    show ?thesis
    proof (cases "set req \<inter> set avail = {}")
      case True
      have y: "req \<noteq> [] \<and> set req \<inter> set avail = {}"
        using False True by blast
      show ?thesis
        by (simp only: validate_items_some_invalid [OF False sub] if_P [OF True] if_P [OF y])
    next
      case inter: False
      have n: "\<not> (req \<noteq> [] \<and> set req \<inter> set avail = {})"
        using inter by blast
      show ?thesis
        by (simp only: validate_items_some_invalid [OF False sub] if_not_P [OF inter]
            if_not_P [OF n] if_not_P [OF sub])
    qed
  qed
qed

lemma validate_items_None:
  "validate_items avail req = None \<longleftrightarrow> req \<noteq> [] \<and> set req \<inter> set avail = {}"
  by (simp add: validate_items_cases)

lemma validate_items_Some:
  assumes "validate_items avail req = Some r"
  shows "set r = set req \<inter> set avail" and "r = [] \<longleftrightarrow> req = []"
proof -
  have n: "\<not> (req \<noteq> [] \<and> set req \<inter> set avail = {})"
    using assms validate_items_None [of avail req] by simp
  show s: "set r = set req \<inter> set avail"
  proof (cases "set req \<subseteq> set avail")
    case True
    then have "r = req" using assms n by (simp add: validate_items_cases)
    then show ?thesis using True by blast
  next
    case False
    then have "r = set_minus req (set_minus req avail)"
      using assms n by (simp add: validate_items_cases)
    then show ?thesis by (auto simp: set_set_minus)
  qed
  show "r = [] \<longleftrightarrow> req = []"
  proof
    assume "r = []"
    then have "set req \<inter> set avail = {}" using s by simp
    then show "req = []" using n by blast
  next
    assume "req = []"
    then have "set r = {}" using s by simp
    then show "r = []" by simp
  qed
qed

lemma set_merge_items:
  "set (merge_items existing req) =
     (case existing of
        None \<Rightarrow> set req
      | Some e \<Rightarrow> if req = [] \<or> e = [] then {} else set req \<union> set e)"
  by (simp add: merge_items_def set_set_union split: option.splits)

lemma subscribed_fields_update:
  "subscribed_fields (sh\<lparr>subscriptions := AList.update n fs (subscriptions sh)\<rparr>) =
     (subscribed_fields sh)(n \<mapsto> set fs)"
  by (rule ext) (simp add: subscribed_fields_def update_conv')

lemma subscribed_fields_step:
  "subscribed_fields (subscribe_item (n, r) sh) =
     (case map_of (available_objects sh) n of
        None \<Rightarrow> subscribed_fields sh
      | Some av \<Rightarrow>
          if r \<noteq> [] \<and> set r \<inter> set av = {} then subscribed_fields sh
          else (subscribed_fields sh)
                 (n \<mapsto> (case subscribed_fields sh n of
                          None \<Rightarrow> set r \<inter> set av
                        | Some S \<Rightarrow> if r = [] \<or> S = {} then {} else (set r \<inter> set av) \<union> S)))"
proof (cases "map_of (available_objects sh) n")
  case None
  then show ?thesis by (simp add: subscribe_item_def)
next
  case av: (Some av)
  show ?thesis
  proof (cases "validate_items av r")
    case None
    then have "r \<noteq> [] \<and> set r \<inter> set av = {}"
      using validate_items_None [of av r] by simp
    then show ?thesis
      using av None by (simp add: subscribe_item_def)
  next
    case (Some r')
    note v = validate_items_Some [OF Some]
    have n: "\<not> (r \<noteq> [] \<and> set r \<inter> set av = {})"
      using Some validate_items_None [of av r] by simp
    have m: "set (merge_items (map_of (subscriptions sh) n) r') =
               (case subscribed_fields sh n of
                  None \<Rightarrow> set r \<inter> set av
                | Some S \<Rightarrow> if r = [] \<or> S = {} then {} else (set r \<inter> set av) \<union> S)"
      by (cases "map_of (subscriptions sh) n")
        (simp_all add: set_merge_items subscribed_fields_def v)
    have "subscribe_item (n, r) sh =
            sh\<lparr>subscriptions :=
                 AList.update n (merge_items (map_of (subscriptions sh) n) r')
                   (subscriptions sh)\<rparr>"
      using av Some by (simp add: subscribe_item_def)
    then show ?thesis
      using av n by (auto simp: subscribed_fields_update m)
  qed
qed


lemma subscribed_fields_cong:
  assumes "available_objects s1 = available_objects s2"
    and "subscribed_fields s1 = subscribed_fields s2"
  shows "subscribed_fields (subscribe_item x s1) = subscribed_fields (subscribe_item x s2)"
proof -
  obtain n r where x: "x = (n, r)" by (cases x)
  show ?thesis
    unfolding x subscribed_fields_step assms by (rule refl)
qed

lemma subscribed_fields_commute:
  "subscribed_fields (subscribe_item y (subscribe_item x sh)) =
   subscribed_fields (subscribe_item x (subscribe_item y sh))"
proof -
  obtain n1 r1 where x: "x = (n1, r1)" by (cases x)
  obtain n2 r2 where y: "y = (n2, r2)" by (cases y)
  show ?thesis
    unfolding x y
    by (rule ext)
      (auto simp: subscribed_fields_step subscribe_item_other_fields split: option.splits)
qed

lemma subscribed_fields_twice:
  "subscribed_fields (subscribe_item x (subscribe_item x sh)) =
   subscribed_fields (subscribe_item x sh)"
proof -
  obtain n r where x: "x = (n, r)" by (cases x)
  show ?thesis
    unfolding x
    by (rule ext)
      (auto simp: subscribed_fields_step subscribe_item_other_fields split: option.splits)
qed


lemma subscribed_fields_absorbed_step:
  assumes "subscribed_fields (subscribe_item x sh) = subscribed_fields sh"
  shows "subscribed_fields (subscribe_item x (subscribe_item y sh)) =
         subscribed_fields (subscribe_item y sh)"
proof -
  have "subscribed_fields (subscribe_item x (subscribe_item y sh)) =
        subscribed_fields (subscribe_item y (subscribe_item x sh))"
    by (rule subscribed_fields_commute)
  also have "\<dots> = subscribed_fields (subscribe_item y sh)"
    by (rule subscribed_fields_cong) (simp_all add: subscribe_item_other_fields assms)
  finally show ?thesis .
qed

lemma subscribed_fields_absorbed_fold:
  assumes "subscribed_fields (subscribe_item x sh) = subscribed_fields sh"
  shows "subscribed_fields (subscribe_item x (fold subscribe_item ys sh)) =
         subscribed_fields (fold subscribe_item ys sh)"
  using assms
proof (induction ys arbitrary: sh)
  case Nil
  then show ?case by simp
next
  case (Cons y ys)
  have "subscribed_fields (subscribe_item x (subscribe_item y sh)) =
        subscribed_fields (subscribe_item y sh)"
    by (rule subscribed_fields_absorbed_step [OF Cons.prems])
  then have "subscribed_fields (subscribe_item x (fold subscribe_item ys (subscribe_item y sh))) =
             subscribed_fields (fold subscribe_item ys (subscribe_item y sh))"
    by (rule Cons.IH)
  then show ?case by simp
qed

lemma subscribed_fields_all_absorbed:
  assumes "x \<in> set xs"
  shows "subscribed_fields (subscribe_item x (fold subscribe_item xs sh)) =
         subscribed_fields (fold subscribe_item xs sh)"
  using assms
proof (induction xs arbitrary: sh)
  case Nil
  then show ?case by simp
next
  case (Cons a xs)
  show ?case
  proof (cases "x = a")
    case True
    have "subscribed_fields (subscribe_item a (fold subscribe_item xs (subscribe_item a sh))) =
          subscribed_fields (fold subscribe_item xs (subscribe_item a sh))"
      by (rule subscribed_fields_absorbed_fold) (rule subscribed_fields_twice)
    then show ?thesis
      using True by simp
  next
    case False
    then have "x \<in> set xs" using Cons.prems by simp
    then show ?thesis using Cons.IH by simp
  qed
qed

lemma subscribed_fields_fold_absorbed:
  assumes "\<forall>x \<in> set xs. subscribed_fields (subscribe_item x sh) = subscribed_fields sh"
  shows "subscribed_fields (fold subscribe_item xs sh) = subscribed_fields sh"
  using assms
proof (induction xs arbitrary: sh)
  case Nil
  then show ?case by simp
next
  case (Cons a xs)
  have a: "subscribed_fields (subscribe_item a sh) = subscribed_fields sh"
    using Cons.prems by simp
  have "\<forall>x \<in> set xs. subscribed_fields (subscribe_item x (subscribe_item a sh)) =
          subscribed_fields (subscribe_item a sh)"
  proof
    fix x assume "x \<in> set xs"
    then have "subscribed_fields (subscribe_item x sh) = subscribed_fields sh"
      using Cons.prems by simp
    then show "subscribed_fields (subscribe_item x (subscribe_item a sh)) =
          subscribed_fields (subscribe_item a sh)"
      by (rule subscribed_fields_absorbed_step)
  qed
  then have "subscribed_fields (fold subscribe_item xs (subscribe_item a sh)) =
             subscribed_fields (subscribe_item a sh)"
    by (rule Cons.IH)
  then show ?case using a by simp
qed

lemma subscribed_fields_fold_cong:
  assumes "available_objects s1 = available_objects s2"
    and "subscribed_fields s1 = subscribed_fields s2"
  shows "subscribed_fields (fold subscribe_item xs s1) =
         subscribed_fields (fold subscribe_item xs s2)"
  using assms
proof (induction xs arbitrary: s1 s2)
  case Nil
  then show ?case by simp
next
  case (Cons a xs)
  have 1: "subscribed_fields (subscribe_item a s1) = subscribed_fields (subscribe_item a s2)"
    by (rule subscribed_fields_cong [OF Cons.prems])
  have 2: "available_objects (subscribe_item a s1) = available_objects (subscribe_item a s2)"
    using Cons.prems(1) by (simp add: subscribe_item_other_fields)
  have "subscribed_fields (fold subscribe_item xs (subscribe_item a s1)) =
        subscribed_fields (fold subscribe_item xs (subscribe_item a s2))"
    by (rule Cons.IH [OF 2 1])
  then show ?case
    by simp
qed

lemma subscribed_fields_add_subscripton:
  "subscribed_fields (add_subscripton new_sub sh) =
   subscribed_fields (fold subscribe_item new_sub sh)"
  by (rule ext) (simp add: subscribed_fields_def add_subscripton_subscriptions)

lemma available_objects_add_subscripton:
  "available_objects (add_subscripton new_sub sh) = available_objects sh"
  by (simp add: add_subscripton_def Let_def fold_subscribe_item_other_fields)

lemma subscribed_fields_resubmit:
  "subscribed_fields (add_subscripton new_sub (add_subscripton new_sub sh)) =
   subscribed_fields (add_subscripton new_sub sh)"
proof -
  let ?s = "fold subscribe_item new_sub sh"
  have "subscribed_fields (add_subscripton new_sub (add_subscripton new_sub sh)) =
        subscribed_fields (fold subscribe_item new_sub (add_subscripton new_sub sh))"
    by (rule subscribed_fields_add_subscripton)
  also have "\<dots> = subscribed_fields (fold subscribe_item new_sub ?s)"
    by (rule subscribed_fields_fold_cong)
      (simp_all add: available_objects_add_subscripton fold_subscribe_item_other_fields
        subscribed_fields_add_subscripton)
  also have "\<dots> = subscribed_fields ?s"
  proof (rule subscribed_fields_fold_absorbed, rule ballI)
    fix x assume "x \<in> set new_sub"
    then show "subscribed_fields (subscribe_item x ?s) = subscribed_fields ?s"
      by (rule subscribed_fields_all_absorbed)
  qed
  also have "\<dots> = subscribed_fields (add_subscripton new_sub sh)"
    by (rule subscribed_fields_add_subscripton [symmetric])
  finally show ?thesis .
qed

lemma merge_items_empty: "merge_items (Some e) r = [] \<longleftrightarrow> r = [] \<or> e = []"
  by (simp add: merge_items_def set_union_empty)

lemma merge_items_None: "merge_items None r = r"
  by (simp add: merge_items_def)

lemma set_merge_items_twice:
  "set (merge_items (Some (merge_items e a)) b) =
     (case e of
        None \<Rightarrow> if a = [] \<or> b = [] then {} else set a \<union> set b
      | Some x \<Rightarrow> if a = [] \<or> b = [] \<or> x = [] then {} else set a \<union> set b \<union> set x)"
  by (cases e) (auto simp: set_merge_items merge_items_empty merge_items_None)

text \<open>
  C5 (as amended). Merging into an existing entry: the all-fields sentinel \<^verbatim>\<open>[]\<close> on
  either side gives the sentinel, two non-empty field lists give a list of their union.
  Merging is commutative and idempotent on the field sets, for the stored lists and for
  the whole table: the order of two items does not matter, and submitting a request
  again leaves the table of subscribed field sets as it is, and with it the set of
  field names that the reply of \<^verbatim>\<open>objects/list_subscription\<close> lists for each object.
\<close>

theorem subscription_merge_commutative_idempotent:
  "merge_items (Some existing) [] = [] \<and>
   merge_items (Some []) req = [] \<and>
   (req \<noteq> [] \<and> existing \<noteq> [] \<longrightarrow>
      set (merge_items (Some existing) req) = set req \<union> set existing \<and>
      merge_items (Some existing) req \<noteq> []) \<and>
   set (merge_items (Some (merge_items e a)) b) = set (merge_items (Some (merge_items e b)) a) \<and>
   set (merge_items (Some (merge_items e a)) a) = set (merge_items e a) \<and>
   subscribed_fields (subscribe_item y (subscribe_item x sh)) =
     subscribed_fields (subscribe_item x (subscribe_item y sh)) \<and>
   subscribed_fields (add_subscripton new_sub (add_subscripton new_sub sh)) =
     subscribed_fields (add_subscripton new_sub sh) \<and>
   listed_fields
     (list_subscription
        (snd (add_subscripton_raw (field_lists new_sub)
                (snd (add_subscripton_raw (field_lists new_sub) (raw_of sh)))))) =
     listed_fields
       (list_subscription (snd (add_subscripton_raw (field_lists new_sub) (raw_of sh))))"
proof (intro conjI impI)
  show "merge_items (Some existing) [] = []" "merge_items (Some []) req = []"
    by (simp_all add: merge_items_def)
  show "set (merge_items (Some existing) req) = set req \<union> set existing"
       "merge_items (Some existing) req \<noteq> []"
    if "req \<noteq> [] \<and> existing \<noteq> []"
    using that by (simp_all add: merge_items_def set_set_union set_union_empty)
  show "set (merge_items (Some (merge_items e a)) b) = set (merge_items (Some (merge_items e b)) a)"
    unfolding set_merge_items_twice by (cases e) auto
  show "set (merge_items (Some (merge_items e a)) a) = set (merge_items e a)"
    unfolding set_merge_items_twice by (cases e) (auto simp: set_merge_items)
  show "subscribed_fields (subscribe_item y (subscribe_item x sh)) =
     subscribed_fields (subscribe_item x (subscribe_item y sh))"
    by (rule subscribed_fields_commute)
  show "subscribed_fields (add_subscripton new_sub (add_subscripton new_sub sh)) =
     subscribed_fields (add_subscripton new_sub sh)"
    by (rule subscribed_fields_resubmit)
  show "listed_fields
     (list_subscription
        (snd (add_subscripton_raw (field_lists new_sub)
                (snd (add_subscripton_raw (field_lists new_sub) (raw_of sh)))))) =
     listed_fields
       (list_subscription (snd (add_subscripton_raw (field_lists new_sub) (raw_of sh))))"
    by (simp only: add_subscripton_raw_field_lists snd_conv listed_fields_list_subscription
        subscribed_fields_resubmit)
qed


lemma available_objects_status_handler0:
  "available_objects status_handler0 =
     [(''toolhead'', [''position'', ''status'', ''homed_axes'']),
      (''extruder'', [''temperature'', ''target''])]"
  by (simp add: status_handler0_def handle_ready_def status_handler_init_def)

lemma subscriptions_status_handler0: "subscriptions status_handler0 = []"
  by (simp add: status_handler0_def handle_ready_def status_handler_init_def)

lemma validate_position_bogus:
  "validate_items [''position'', ''status'', ''homed_axes''] [''position'', ''bogus''] =
     Some [''position'']"
  by (simp add: validate_items_def set_minus_def)


lemma subscribe_position_bogus:
  "subscriptions (add_subscripton [(''toolhead'', [''position'', ''bogus''])] status_handler0) =
     [(''toolhead'', [''position''])]"
  by (simp add: add_subscripton_def Let_def subscribe_item_def
      available_objects_status_handler0 subscriptions_status_handler0 validate_position_bogus
      merge_items_def)

theorem subscription_merge_commutative_idempotent_witness:
  "set (merge_items (Some [''position'']) [''status'']) = {''status'', ''position''} \<and>
   merge_items (Some [''position'']) [] = [] \<and>
   subscribed_fields
     (add_subscripton [(''toolhead'', [''position'', ''bogus''])]
        (add_subscripton [(''toolhead'', [''position'', ''bogus''])] status_handler0))
     ''toolhead'' = Some {''position''}"
proof -
  have "subscribed_fields
          (add_subscripton [(''toolhead'', [''position'', ''bogus''])] status_handler0)
          ''toolhead'' = Some {''position''}"
    by (simp add: subscribed_fields_def subscribe_position_bogus)
  then show ?thesis
    using subscription_merge_commutative_idempotent
            [of "[''position'']" "[''status'']" None "[]" "[]" "(''toolhead'', [])"
              "(''toolhead'', [])" status_handler0 "[(''toolhead'', [''position'', ''bogus''])]"]
    by (simp add: insert_commute)
qed

text \<open>
  C5 (as stated) fails at the reply of \<^verbatim>\<open>objects/list_subscription\<close>: the first request
  for a field list stores the list as it was sent, here with a field named twice, and
  the same request again stores the list of a set, with the field once.
\<close>

theorem resubmitted_list_is_listed_differently:
  "list_subscription
     (snd (add_subscripton_raw (field_lists [(''extruder'', [''target'', ''target''])])
             status_handler0)) =
     JObj [(''extruder'', JList [JStr ''target'', JStr ''target''])] \<and>
   list_subscription
     (snd (add_subscripton_raw (field_lists [(''extruder'', [''target'', ''target''])])
             (snd (add_subscripton_raw (field_lists [(''extruder'', [''target'', ''target''])])
                     status_handler0)))) =
     JObj [(''extruder'', JList [JStr ''target''])] \<and>
   list_subscription
     (snd (add_subscripton_raw (field_lists [(''extruder'', [''target'', ''target''])])
             (snd (add_subscripton_raw (field_lists [(''extruder'', [''target'', ''target''])])
                     status_handler0)))) \<noteq>
   list_subscription
     (snd (add_subscripton_raw (field_lists [(''extruder'', [''target'', ''target''])])
             status_handler0))"
  by (simp add: list_subscription_def field_lists_def field_list_def
      add_subscripton_raw_def subscribe_item_raw_def validate_items_raw_def py_set_def
      merge_items_raw_def status_handler0_def handle_ready_def status_handler_init_def Let_def)





section \<open>Sending\<close>

lemma conn_send_sending:
  assumes "is_sending_data c"
  shows "conn_send rt data c = c\<lparr>send_buffer := send_buffer c @ json_dumps rt data @ [ETX]\<rparr>"
  using assms by (simp add: conn_send_def)

lemma conn_send_idle:
  assumes "\<not> is_sending_data c"
  shows "conn_send rt data c =
           c\<lparr>send_buffer := send_buffer c @ json_dumps rt data @ [ETX],
             is_sending_data := True, callbacks := callbacks c @ [DoSend]\<rparr>"
  using assms by (simp add: conn_send_def)

lemma close_fields:
  "is_sending_data (close c) = is_sending_data c"
  "callbacks (close c) = callbacks c"
  "send_buffer (close c) = send_buffer c"
  "sock_out (close c) = sock_out c"
  by (simp_all add: close_def)

lemma do_send_step_None:
  assumes "do_send_step r retries c = (None, c')"
  shows "\<not> is_sending_data c'" and "callbacks c' = callbacks c"
    and "sock_out c' @ send_buffer c' = sock_out c @ send_buffer c"
  using assms
  by (auto simp: do_send_step_def close_fields split: if_splits send_result.splits)

lemma do_send_step_Some:
  assumes "do_send_step r retries c = (Some n, c')"
  shows "is_sending_data c' = is_sending_data c" and "callbacks c' = callbacks c"
    and "sock_out c' @ send_buffer c' = sock_out c @ send_buffer c"
  using assms
  by (auto simp: do_send_step_def close_fields split: if_splits send_result.splits)

lemma do_send_loop_clears_flag: "\<not> is_sending_data (do_send_loop sock retries c)"
proof (induction sock retries c rule: do_send_loop.induct)
  case (1 sock retries c)
  show ?case
  proof (cases "do_send_step (sock 0) retries c")
    case (Pair res c')
    show ?thesis
    proof (cases res)
      case None
      then show ?thesis
        using Pair do_send_step_None(1) [of "sock 0" retries c c']
        by (simp add: do_send_loop.simps [of sock retries c])
    next
      case (Some n)
      have "\<not> is_sending_data (do_send_loop (\<lambda>i. sock (Suc i)) n c')"
        by (rule "1.IH" [OF Pair [symmetric] Some])
      then show ?thesis
        using Pair Some by (simp add: do_send_loop.simps [of sock retries c])
    qed
  qed
qed

lemma count_list_remove1:
  assumes "x \<in> set xs"
  shows "Suc (count_list (remove1 x xs) x) = count_list xs x"
  using assms by (induction xs) auto

lemma run_event_invariant:
  assumes "run_event rt e (loops, c) = (loops', c')"
    and "length loops + count_list (callbacks c) DoSend = (if is_sending_data c then 1 else 0)"
  shows "length loops' + count_list (callbacks c') DoSend = (if is_sending_data c' then 1 else 0)"
proof (cases e)
  case (Enqueue d)
  then show ?thesis
    using assms by (cases "is_sending_data c") (auto simp: conn_send_def)
next
  case StartDoSend
  show ?thesis
  proof (cases "DoSend \<in> set (callbacks c)")
    case True
    then show ?thesis
      using assms StartDoSend count_list_remove1 [OF True] by auto
  next
    case False
    then show ?thesis using assms StartDoSend by auto
  qed
next
  case (LoopPass i r)
  show ?thesis
  proof (cases "i < length loops")
    case False
    then show ?thesis using assms LoopPass by auto
  next
    case True
    then have s: "is_sending_data c" and l: "length loops = 1"
      and n: "count_list (callbacks c) DoSend = 0"
      using assms(2) by (auto split: if_splits)
    obtain res c1 where d: "do_send_step r (loops ! i) c = (res, c1)"
      by (cases "do_send_step r (loops ! i) c")
    show ?thesis
    proof (cases res)
      case None
      then have "loops' = take i loops @ drop (Suc i) loops" "c' = c1"
        using assms(1) LoopPass True d by auto
      then show ?thesis
        using do_send_step_None [OF d [unfolded None]] True l n by auto
    next
      case (Some m)
      then have "loops' = loops[i := m]" "c' = c1"
        using assms(1) LoopPass True d by auto
      then show ?thesis
        using do_send_step_Some [OF d [unfolded Some]] s l n by auto
    qed
  qed
qed

lemma run_event_order:
  assumes "run_event rt e (loops, c) = (loops', c')"
  shows "sock_out c' @ send_buffer c' =
           sock_out c @ send_buffer c @ concat (map (\<lambda>d. json_dumps rt d @ [ETX]) (enqueued [e]))"
proof (cases e)
  case (Enqueue d)
  then show ?thesis using assms by (auto simp: conn_send_def Let_def)
next
  case StartDoSend
  then show ?thesis using assms by (auto split: if_splits)
next
  case (LoopPass i r)
  show ?thesis
  proof (cases "i < length loops")
    case False
    then show ?thesis using assms LoopPass by auto
  next
    case True
    obtain res c1 where d: "do_send_step r (loops ! i) c = (res, c1)"
      by (cases "do_send_step r (loops ! i) c")
    then have c': "c' = c1"
      using assms LoopPass True by (cases res) auto
    show ?thesis
      using d do_send_step_None(3) [of r "loops ! i" c c1]
        do_send_step_Some(3) [of r "loops ! i" c _ c1] LoopPass
      unfolding c' by (cases res) auto
  qed
qed

lemma enqueued_Cons: "enqueued (e # es) = enqueued [e] @ enqueued es"
  by (cases e) simp_all

lemma fold_run_event:
  assumes "fold (run_event rt) es (loops, c) = (loops', c')"
    and "length loops + count_list (callbacks c) DoSend = (if is_sending_data c then 1 else 0)"
  shows "length loops' + count_list (callbacks c') DoSend = (if is_sending_data c' then 1 else 0) \<and>
         sock_out c' @ send_buffer c' =
           sock_out c @ send_buffer c @ concat (map (\<lambda>d. json_dumps rt d @ [ETX]) (enqueued es))"
  using assms
proof (induction es arbitrary: loops c)
  case Nil
  then show ?case by simp
next
  case (Cons e es)
  obtain l1 c1 where s: "run_event rt e (loops, c) = (l1, c1)"
    by (cases "run_event rt e (loops, c)")
  have i: "length l1 + count_list (callbacks c1) DoSend = (if is_sending_data c1 then 1 else 0)"
    by (rule run_event_invariant [OF s Cons.prems(2)])
  have f: "fold (run_event rt) es (l1, c1) = (loops', c')"
    using Cons.prems(1) s by simp
  note r = Cons.IH [OF f i]
  have "sock_out c' @ send_buffer c' =
          (sock_out c1 @ send_buffer c1) @
          concat (map (\<lambda>d. json_dumps rt d @ [ETX]) (enqueued es))"
    using r by simp
  also have "sock_out c1 @ send_buffer c1 =
               sock_out c @ send_buffer c @
               concat (map (\<lambda>d. json_dumps rt d @ [ETX]) (enqueued [e]))"
    by (rule run_event_order [OF s])
  finally have "sock_out c' @ send_buffer c' =
           sock_out c @ send_buffer c @
           concat (map (\<lambda>d. json_dumps rt d @ [ETX]) (enqueued (e # es)))"
    by (simp add: enqueued_Cons [of e es])
  then show ?case using r by blast
qed


text \<open>
  C9. \<^verbatim>\<open>send\<close> while \<^verbatim>\<open>is_sending_data\<close> is set only appends to the buffer; while it is
  clear it also sets the flag and registers one \<^verbatim>\<open>_do_send\<close>. \<^verbatim>\<open>_do_send\<close> clears the flag
  when it leaves its loop, and it always leaves it. So after any sequence of events on a
  fresh connection, the number of \<^verbatim>\<open>_do_send\<close> calls that are registered or running is
  1 if the flag is set and 0 if not, and the bytes the socket accepted followed by the
  buffer are the encoded values in the order they were enqueued.
\<close>

theorem at_most_one_flush_and_enqueue_order:
  "(is_sending_data c \<longrightarrow>
      conn_send rt data c = c\<lparr>send_buffer := send_buffer c @ json_dumps rt data @ [ETX]\<rparr>) \<and>
   (\<not> is_sending_data c \<longrightarrow>
      conn_send rt data c =
        c\<lparr>send_buffer := send_buffer c @ json_dumps rt data @ [ETX],
          is_sending_data := True, callbacks := callbacks c @ [DoSend]\<rparr>) \<and>
   (do_send_step r retries c = (None, c') \<longrightarrow> \<not> is_sending_data c') \<and>
   \<not> is_sending_data (do_send sock c) \<and>
   (fold (run_event rt) es ([], client_connection_init u fd) = (loops, c1) \<longrightarrow>
      length loops + count_list (callbacks c1) DoSend = (if is_sending_data c1 then 1 else 0) \<and>
      sock_out c1 @ send_buffer c1 =
        concat (map (\<lambda>d. json_dumps rt d @ [ETX]) (enqueued es)))"
proof (intro conjI impI)
  show "conn_send rt data c = c\<lparr>send_buffer := send_buffer c @ json_dumps rt data @ [ETX]\<rparr>"
    if "is_sending_data c"
    using that by (rule conn_send_sending)
  show "conn_send rt data c =
        c\<lparr>send_buffer := send_buffer c @ json_dumps rt data @ [ETX],
          is_sending_data := True, callbacks := callbacks c @ [DoSend]\<rparr>"
    if "\<not> is_sending_data c"
    using that by (rule conn_send_idle)
  show "\<not> is_sending_data c'" if "do_send_step r retries c = (None, c')"
    using that by (rule do_send_step_None(1))
  show "\<not> is_sending_data (do_send sock c)"
    unfolding do_send_def by (rule do_send_loop_clears_flag)
next
  assume f: "fold (run_event rt) es ([], client_connection_init u fd) = (loops, c1)"
  have i: "length [] + count_list (callbacks (client_connection_init u fd)) DoSend =
             (if is_sending_data (client_connection_init u fd) then 1 else 0)"
    by (simp add: client_connection_init_def)
  note r = fold_run_event [OF f i]
  show "length loops + count_list (callbacks c1) DoSend = (if is_sending_data c1 then 1 else 0)"
    using r by blast
  show "sock_out c1 @ send_buffer c1 =
        concat (map (\<lambda>d. json_dumps rt d @ [ETX]) (enqueued es))"
    using r by (simp add: client_connection_init_def)
qed

lemma sample_events:
  "fold (run_event ascii_runtime)
     [Enqueue JNull, Enqueue (JBool True), StartDoSend, LoopPass 0 (Sent 2),
      Enqueue (JBool False), LoopPass 0 (SendError EAGAIN), LoopPass 0 (Sent 100),
      LoopPass 0 (Sent 1)]
     ([], client_connection_init 7 3) =
   ([], (client_connection_init 7 3)\<lparr>sock_out := ''null'' @ [ETX] @ ''true'' @ [ETX] @ ''false'' @ [ETX]\<rparr>)"
  by (simp add: client_connection_init_def conn_send_def do_send_step_def ascii_runtime_def)

theorem at_most_one_flush_and_enqueue_order_witness:
  "fold (run_event ascii_runtime)
     [Enqueue JNull, Enqueue (JBool True), StartDoSend, LoopPass 0 (Sent 2),
      Enqueue (JBool False), LoopPass 0 (SendError EAGAIN), LoopPass 0 (Sent 100),
      LoopPass 0 (Sent 1)]
     ([], client_connection_init 7 3) =
   ([], (client_connection_init 7 3)\<lparr>sock_out := ''null'' @ [ETX] @ ''true'' @ [ETX] @ ''false'' @ [ETX]\<rparr>) \<and>
   \<not> is_sending_data (do_send (\<lambda>i. SendError EAGAIN) (conn_send ascii_runtime JNull conn0)) \<and>
   is_sending_data (conn_send ascii_runtime JNull conn0) \<and>
   callbacks (conn_send ascii_runtime JNull (conn_send ascii_runtime JNull conn0)) = [DoSend]"
proof -
  note t = at_most_one_flush_and_enqueue_order
             [of "conn_send ascii_runtime JNull conn0" ascii_runtime JNull _ _ _
               "\<lambda>i. SendError EAGAIN"]
  have s: "is_sending_data (conn_send ascii_runtime JNull conn0)"
    by (simp add: conn_send_def conn0_def client_connection_init_def)
  have c: "callbacks (conn_send ascii_runtime JNull conn0) = [DoSend]"
    by (simp add: conn_send_def conn0_def client_connection_init_def)
  have "conn_send ascii_runtime JNull (conn_send ascii_runtime JNull conn0) =
          (conn_send ascii_runtime JNull conn0)
            \<lparr>send_buffer := send_buffer (conn_send ascii_runtime JNull conn0) @
               json_dumps ascii_runtime JNull @ [ETX]\<rparr>"
    using t s by blast
  then have "callbacks (conn_send ascii_runtime JNull (conn_send ascii_runtime JNull conn0)) =
               [DoSend]"
    using c by simp
  moreover have "\<not> is_sending_data
                    (do_send (\<lambda>i. SendError EAGAIN) (conn_send ascii_runtime JNull conn0))"
    using t by blast
  ultimately show ?thesis
    using sample_events s by blast
qed

end
